theory Spec2Isabelle
  imports Complex_Main "HOL-Library.Word"
begin

section \<open>Scalar types of \<^verbatim>\<open>order_book.h\<close>\<close>

text \<open>
  \<^verbatim>\<open>Price\<close> is \<^verbatim>\<open>std::int64_t\<close>: a 64-bit word that the code compares as a signed
  number (\<open><s\<close>, \<open>sint\<close>) and casts to \<^verbatim>\<open>size_t\<close> (\<open>unat\<close>) in \<^verbatim>\<open>price_to_index\<close>.
  \<^verbatim>\<open>Quantity\<close> is \<^verbatim>\<open>std::uint32_t\<close>: \<open>+\<close> and \<open>-\<close> wrap modulo \<open>2^32\<close>, comparisons are
  unsigned. \<^verbatim>\<open>OrderId\<close> and \<^verbatim>\<open>Timestamp\<close> are \<^verbatim>\<open>std::uint64_t\<close>.
\<close>

type_synonym Price = "64 word"
type_synonym OrderId = "64 word"
type_synonym Quantity = "32 word"
type_synonym Timestamp = "64 word"

datatype Side = BUY | SELL

text \<open>\<^verbatim>\<open>struct OrderBookLevel { Price price; Quantity quantity; }\<close>\<close>

record OrderBookLevel =
  l_price :: Price
  l_quantity :: Quantity

text \<open>The default constructor \<^verbatim>\<open>OrderBookLevel() : price(0), quantity(0)\<close>.\<close>

definition OrderBookLevel_default :: OrderBookLevel where
  "OrderBookLevel_default = \<lparr>l_price = 0, l_quantity = 0\<rparr>"

text \<open>\<^verbatim>\<open>struct Order\<close>, field for field.\<close>

record Order =
  o_id :: OrderId
  o_price :: Price
  o_quantity :: Quantity
  o_original_quantity :: Quantity
  o_side :: Side
  o_timestamp :: Timestamp
  o_symbol :: string

text \<open>
  The constructor \<^verbatim>\<open>Order(order_id, p, q, s, ts, sym)\<close>: \<^verbatim>\<open>quantity(q), original_quantity(q)\<close>.
\<close>

definition Order_new :: "OrderId \<Rightarrow> Price \<Rightarrow> Quantity \<Rightarrow> Side \<Rightarrow> Timestamp \<Rightarrow> string \<Rightarrow> Order" where
  "Order_new order_id p q s ts symb =
     \<lparr>o_id = order_id, o_price = p, o_quantity = q, o_original_quantity = q,
      o_side = s, o_timestamp = ts, o_symbol = symb\<rparr>"

section \<open>The order book (\<^verbatim>\<open>order_book.cpp\<close>)\<close>

text \<open>
  The private members of \<^verbatim>\<open>class OrderBook\<close>: the two level vectors, the
  \<^verbatim>\<open>unordered_map<OrderId, Order>\<close> as a map, the symbol and the two cached optionals.
\<close>

record OrderBook =
  bid_levels :: "OrderBookLevel list"
  ask_levels :: "OrderBookLevel list"
  orders :: "OrderId \<rightharpoonup> Order"
  symbol :: string
  best_bid :: "Price option"
  best_ask :: "Price option"

text \<open>
  The constructor resizes both vectors to \<^verbatim>\<open>price_levels\<close> default-constructed levels
  (256 when the argument is omitted).
\<close>

definition OrderBook_new :: "string \<Rightarrow> nat \<Rightarrow> OrderBook" where
  "OrderBook_new symb price_levels =
     \<lparr>bid_levels = replicate price_levels OrderBookLevel_default,
      ask_levels = replicate price_levels OrderBookLevel_default,
      orders = Map.empty, symbol = symb, best_bid = None, best_ask = None\<rparr>"

text \<open>
  \<^verbatim>\<open>return static_cast<size_t>(price) % bid_levels_.size();\<close> The side is ignored and the
  size of the bid vector is used for both sides. With an empty vector the C++ divides by
  zero; every statement below is about books whose vectors are not empty.
\<close>

definition price_to_index :: "OrderBook \<Rightarrow> Price \<Rightarrow> Side \<Rightarrow> nat" where
  "price_to_index b p s = unat p mod length (bid_levels b)"

text \<open>The three kinds of in-place update the operations make on a slot of a level vector.\<close>

definition set_level_price :: "OrderBookLevel list \<Rightarrow> nat \<Rightarrow> Price \<Rightarrow> OrderBookLevel list" where
  "set_level_price levels i p = levels[i := (levels ! i)\<lparr>l_price := p\<rparr>]"

definition add_level_quantity :: "OrderBookLevel list \<Rightarrow> nat \<Rightarrow> Quantity \<Rightarrow> OrderBookLevel list" where
  "add_level_quantity levels i q =
     levels[i := (levels ! i)\<lparr>l_quantity := l_quantity (levels ! i) + q\<rparr>]"

definition sub_level_quantity :: "OrderBookLevel list \<Rightarrow> nat \<Rightarrow> Quantity \<Rightarrow> OrderBookLevel list" where
  "sub_level_quantity levels i q =
     levels[i := (levels ! i)\<lparr>l_quantity := l_quantity (levels ! i) - q\<rparr>]"

text \<open>
  One iteration of each loop of \<^verbatim>\<open>update_best_prices\<close>: a level with
  \<^verbatim>\<open>quantity > 0\<close> replaces the running best when there is none yet or its price is
  strictly better (signed comparison of \<^verbatim>\<open>int64_t\<close>).
\<close>

definition bid_step :: "Price option \<Rightarrow> OrderBookLevel \<Rightarrow> Price option" where
  "bid_step best level =
     (if 0 < l_quantity level then
        (case best of None \<Rightarrow> Some (l_price level)
         | Some cur \<Rightarrow> if cur <s l_price level then Some (l_price level) else best)
      else best)"

definition ask_step :: "Price option \<Rightarrow> OrderBookLevel \<Rightarrow> Price option" where
  "ask_step best level =
     (if 0 < l_quantity level then
        (case best of None \<Rightarrow> Some (l_price level)
         | Some cur \<Rightarrow> if l_price level <s cur then Some (l_price level) else best)
      else best)"

definition update_best_prices :: "OrderBook \<Rightarrow> OrderBook" where
  "update_best_prices b =
     b\<lparr>best_bid := foldl bid_step None (bid_levels b),
       best_ask := foldl ask_step None (ask_levels b)\<rparr>"

text \<open>\<^verbatim>\<open>void OrderBook::add_order(const Order& order)\<close>\<close>

definition add_order :: "OrderBook \<Rightarrow> Order \<Rightarrow> OrderBook" where
  "add_order b order =
     (let b1 = b\<lparr>orders := (orders b)(o_id order \<mapsto> order)\<rparr>;
          index = price_to_index b1 (o_price order) (o_side order);
          b2 = (if o_side order = BUY
                then b1\<lparr>bid_levels :=
                       add_level_quantity (set_level_price (bid_levels b1) index (o_price order))
                         index (o_quantity order)\<rparr>
                else b1\<lparr>ask_levels :=
                       add_level_quantity (set_level_price (ask_levels b1) index (o_price order))
                         index (o_quantity order)\<rparr>)
      in update_best_prices b2)"

text \<open>
  \<^verbatim>\<open>bool OrderBook::modify_order(OrderId order_id, Quantity new_quantity)\<close>: the result is
  the returned flag and the book after the call.
\<close>

definition modify_order :: "OrderBook \<Rightarrow> OrderId \<Rightarrow> Quantity \<Rightarrow> bool \<times> OrderBook" where
  "modify_order b order_id new_quantity =
     (case orders b order_id of
        None \<Rightarrow> (False, b)
      | Some order \<Rightarrow>
          (let index = price_to_index b (o_price order) (o_side order);
               b1 = (if o_side order = BUY
                     then b\<lparr>bid_levels :=
                            add_level_quantity
                              (sub_level_quantity (bid_levels b) index (o_quantity order))
                              index new_quantity\<rparr>
                     else b\<lparr>ask_levels :=
                            add_level_quantity
                              (sub_level_quantity (ask_levels b) index (o_quantity order))
                              index new_quantity\<rparr>);
               b2 = b1\<lparr>orders := (orders b1)(order_id \<mapsto> order\<lparr>o_quantity := new_quantity\<rparr>)\<rparr>
           in (True, update_best_prices b2)))"

text \<open>\<^verbatim>\<open>bool OrderBook::cancel_order(OrderId order_id)\<close>\<close>

definition cancel_order :: "OrderBook \<Rightarrow> OrderId \<Rightarrow> bool \<times> OrderBook" where
  "cancel_order b order_id =
     (case orders b order_id of
        None \<Rightarrow> (False, b)
      | Some order \<Rightarrow>
          (let index = price_to_index b (o_price order) (o_side order);
               b1 = (if o_side order = BUY
                     then b\<lparr>bid_levels := sub_level_quantity (bid_levels b) index (o_quantity order)\<rparr>
                     else b\<lparr>ask_levels := sub_level_quantity (ask_levels b) index (o_quantity order)\<rparr>);
               b2 = b1\<lparr>orders := (orders b1)(order_id := None)\<rparr>
           in (True, update_best_prices b2)))"

text \<open>\<^verbatim>\<open>bool OrderBook::execute_order(OrderId order_id, Quantity exec_quantity)\<close>\<close>

definition execute_order :: "OrderBook \<Rightarrow> OrderId \<Rightarrow> Quantity \<Rightarrow> bool \<times> OrderBook" where
  "execute_order b order_id exec_quantity =
     (case orders b order_id of
        None \<Rightarrow> (False, b)
      | Some order \<Rightarrow>
          if o_quantity order < exec_quantity then (False, b)
          else
            (let index = price_to_index b (o_price order) (o_side order);
                 b1 = (if o_side order = BUY
                       then b\<lparr>bid_levels := sub_level_quantity (bid_levels b) index exec_quantity\<rparr>
                       else b\<lparr>ask_levels := sub_level_quantity (ask_levels b) index exec_quantity\<rparr>);
                 order' = order\<lparr>o_quantity := o_quantity order - exec_quantity\<rparr>;
                 b2 = b1\<lparr>orders := (orders b1)(order_id \<mapsto> order')\<rparr>;
                 b3 = (if o_quantity order' = 0
                       then b2\<lparr>orders := (orders b2)(order_id := None)\<rparr> else b2)
             in (True, update_best_prices b3)))"

text \<open>
  \<^verbatim>\<open>depth()\<close>: two counting loops over the level vectors, returning
  \<^verbatim>\<open>{bid_depth, ask_depth}\<close>.
\<close>

definition count_step :: "nat \<Rightarrow> OrderBookLevel \<Rightarrow> nat" where
  "count_step d level = (if 0 < l_quantity level then d + 1 else d)"

definition depth :: "OrderBook \<Rightarrow> nat \<times> nat" where
  "depth b = (foldl count_step 0 (bid_levels b), foldl count_step 0 (ask_levels b))"

text \<open>
  The books a program can hold: built by the constructor with a positive number of
  price levels, then changed by any sequence of the four mutating operations. The first
  argument is the capacity the book was constructed with.
\<close>

inductive reachable :: "nat \<Rightarrow> OrderBook \<Rightarrow> bool" where
  r_new: "0 < c \<Longrightarrow> reachable c (OrderBook_new symb c)"
| r_add: "reachable c b \<Longrightarrow> reachable c (add_order b order)"
| r_modify: "reachable c b \<Longrightarrow> reachable c (snd (modify_order b order_id new_quantity))"
| r_cancel: "reachable c b \<Longrightarrow> reachable c (snd (cancel_order b order_id))"
| r_execute: "reachable c b \<Longrightarrow> reachable c (snd (execute_order b order_id exec_quantity))"

text \<open>The levels of a side that are not empty: the slots with \<^verbatim>\<open>quantity > 0\<close>.\<close>

definition nonempty_levels :: "OrderBookLevel list \<Rightarrow> OrderBookLevel set" where
  "nonempty_levels levels = {level \<in> set levels. 0 < l_quantity level}"

text \<open>
  The cached best prices are fresh when they are what \<^verbatim>\<open>update_best_prices\<close> computes from
  the current level vectors.
\<close>

definition best_fresh :: "OrderBook \<Rightarrow> bool" where
  "best_fresh b \<longleftrightarrow> best_bid b = foldl bid_step None (bid_levels b) \<and>
                  best_ask b = foldl ask_step None (ask_levels b)"

text \<open>
  The invariant the data model asks of the order index: every resting order has
  \<^verbatim>\<open>quantity \<le> original_quantity\<close>, and none has quantity 0.
\<close>

definition orders_ok :: "OrderBook \<Rightarrow> bool" where
  "orders_ok b \<longleftrightarrow>
     (\<forall>order_id order. orders b order_id = Some order \<longrightarrow>
        o_quantity order \<le> o_original_quantity order \<and> o_quantity order \<noteq> 0)"

text \<open>
  Concrete books on the default 256 levels: one resting buy of 10 at 100.50 (order 1); that
  book after \<^verbatim>\<open>modify_order(1, 20)\<close> and after \<^verbatim>\<open>modify_order(1, 0)\<close>; and the book with a
  sell at 100.00 added after the buy.
\<close>

definition first_order :: Order where
  "first_order = Order_new 1 10050 10 BUY 0 ''AAPL''"

text \<open>A second buy whose price, 103.06, is 256 ticks above the first.\<close>

definition aliased_order :: Order where
  "aliased_order = Order_new 3 10306 15 BUY 0 ''AAPL''"

definition one_order_book :: OrderBook where
  "one_order_book = add_order (OrderBook_new ''AAPL'' 256) first_order"

definition aliased_book :: OrderBook where
  "aliased_book = add_order one_order_book aliased_order"

text \<open>The book with buys at 100.50 and at 100.51, which fall into different slots.\<close>

definition two_level_book :: OrderBook where
  "two_level_book = add_order one_order_book (Order_new 4 10051 1 BUY 0 ''AAPL'')"

definition modified_up_book :: OrderBook where
  "modified_up_book = snd (modify_order one_order_book 1 20)"

definition modified_zero_book :: OrderBook where
  "modified_zero_book = snd (modify_order one_order_book 1 0)"

definition crossed_book :: OrderBook where
  "crossed_book =
     add_order (add_order (OrderBook_new ''AAPL'' 256) (Order_new 1 10050 10 BUY 0 ''AAPL''))
       (Order_new 2 10000 5 SELL 0 ''AAPL'')"

section \<open>The market-data parser (\<^verbatim>\<open>market_data.h\<close>, \<^verbatim>\<open>market_data.cpp\<close>)\<close>

type_synonym byte = "8 word"

text \<open>
  The message structs are declared under \<^verbatim>\<open>#pragma pack(push, 1)\<close>, so the size of each is
  the sum of the sizes of its fields: \<^verbatim>\<open>OrderId\<close> and \<^verbatim>\<open>Price\<close> 8 bytes, \<^verbatim>\<open>Quantity\<close> 4,
  \<^verbatim>\<open>uint8_t\<close> 1.
\<close>

definition sizeof_AddOrderData :: nat where
  "sizeof_AddOrderData = 8 + 8 + 4 + 1"

definition sizeof_ModifyOrderData :: nat where
  "sizeof_ModifyOrderData = 8 + 4"

definition sizeof_CancelOrderData :: nat where
  "sizeof_CancelOrderData = 8"

definition sizeof_ExecuteOrderData :: nat where
  "sizeof_ExecuteOrderData = 8 + 4 + 8"

definition sizeof_TradeData :: nat where
  "sizeof_TradeData = 8 + 4 + 1"

text \<open>
  \<^verbatim>\<open>struct MarketDataMessage\<close>: \<^verbatim>\<open>uint64_t timestamp\<close>, \<^verbatim>\<open>MessageType type\<close> (one byte),
  \<^verbatim>\<open>uint8_t symbol_length\<close>, then an anonymous union of the five payload structs, which
  has the size of its largest member. \<^verbatim>\<open>type\<close> is at byte 8 and \<^verbatim>\<open>symbol_length\<close> at
  byte 9 of the struct.
\<close>

definition sizeof_MarketDataMessage :: nat where
  "sizeof_MarketDataMessage =
     8 + 1 + 1 +
     max sizeof_AddOrderData (max sizeof_ModifyOrderData (max sizeof_CancelOrderData
       (max sizeof_ExecuteOrderData sizeof_TradeData)))"

definition offsetof_type :: nat where
  "offsetof_type = 8"

definition offsetof_symbol_length :: nat where
  "offsetof_symbol_length = 8 + 1"

text \<open>
  \<^verbatim>\<open>parse_message(data, offset, max_length)\<close>. The C++ returns the pair
  \<^verbatim>\<open>{msg, symbol}\<close> and advances \<^verbatim>\<open>offset\<close> through a reference; \<^verbatim>\<open>{nullptr, ""}\<close> with the
  offset untouched is \<open>None\<close> here. On success the result is the bytes the returned
  \<^verbatim>\<open>MarketDataMessage*\<close> points at, the bytes of the \<^verbatim>\<open>string_view\<close>, and the new offset.
  \<^verbatim>\<open>msg->symbol_length\<close> reads the byte at \<^verbatim>\<open>offset + 9\<close>, which the first check has put
  inside \<^verbatim>\<open>max_length\<close>.
\<close>

definition parse_message :: "byte list \<Rightarrow> nat \<Rightarrow> nat \<Rightarrow> (byte list \<times> byte list \<times> nat) option" where
  "parse_message data offset max_length =
     (if offset + sizeof_MarketDataMessage > max_length then None
      else
        (let symbol_length = unat (data ! (offset + offsetof_symbol_length));
             total_size = sizeof_MarketDataMessage + symbol_length
         in if offset + total_size > max_length then None
            else Some (take sizeof_MarketDataMessage (drop offset data),
                       take symbol_length (drop (offset + sizeof_MarketDataMessage) data),
                       offset + total_size)))"

text \<open>
  The loop of \<^verbatim>\<open>process_buffer\<close>. Each parsed message is handed to the callbacks of its
  symbol and to \<^verbatim>\<open>update_order_books\<close>, neither of which touches \<^verbatim>\<open>offset\<close> or
  \<^verbatim>\<open>processed\<close>: the messages handed over are collected in order in the last argument.
  After each message the loop executes \<^verbatim>\<open>processed += offset;\<close> with the offset already
  advanced by \<^verbatim>\<open>parse_message\<close>.
\<close>

function process_loop ::
  "byte list \<Rightarrow> nat \<Rightarrow> nat \<Rightarrow> nat \<Rightarrow> (byte list \<times> byte list) list
     \<Rightarrow> nat \<times> (byte list \<times> byte list) list" where
  "process_loop data len offset processed dispatched =
     (if offset < len then
        (case parse_message data offset len of
           None \<Rightarrow> (processed, dispatched)
         | Some (msg, symb, offset') \<Rightarrow>
             process_loop data len offset' (processed + offset') (dispatched @ [(msg, symb)]))
      else (processed, dispatched))"
  by pat_completeness auto
termination
proof (relation "measure (\<lambda>(data, len, offset, processed, dispatched). len - offset)")
  show "wf (measure (\<lambda>(data, len, offset, processed, dispatched). len - offset))" by simp
next
  fix data :: "byte list" and len offset processed :: nat
    and dispatched :: "(byte list \<times> byte list) list"
    and x2 :: "byte list \<times> byte list \<times> nat" and msg y symb offset'
  assume "offset < len" and p: "parse_message data offset len = Some x2"
    and "(msg, y) = x2" and "(symb, offset') = y"
  then have e: "parse_message data offset len = Some (msg, symb, offset')" by auto
  have "\<not> offset + sizeof_MarketDataMessage > len"
    using e by (simp add: parse_message_def split: if_splits)
  moreover have "offset' = offset + (sizeof_MarketDataMessage
        + unat (data ! (offset + offsetof_symbol_length))) \<and> \<not> offset' > len"
    using e by (simp add: parse_message_def Let_def split: if_splits)
  moreover have "0 < sizeof_MarketDataMessage" by (simp add: sizeof_MarketDataMessage_def)
  ultimately have "offset < offset' \<and> offset' \<le> len" by linarith
  then show "((data, len, offset', processed + offset', dispatched @ [(msg, symb)]),
              (data, len, offset, processed, dispatched))
             \<in> measure (\<lambda>(data, len, offset, processed, dispatched). len - offset)"
    by (simp add: diff_less_mono2)
qed

declare process_loop.simps [simp del]

text \<open>\<^verbatim>\<open>size_t MarketDataHandler::process_buffer(const uint8_t* data, size_t length)\<close>\<close>

definition process_buffer :: "byte list \<Rightarrow> nat \<Rightarrow> nat \<times> (byte list \<times> byte list) list" where
  "process_buffer data len = process_loop data len 0 0 []"

text \<open>
  The payload sizes as the specification words them, by the type byte of the header:
  21 for AddOrder (1), 12 for ModifyOrder (2), 8 for CancelOrder (3), 20 for ExecuteOrder
  (4), 13 for Trade (5), 0 for Snapshot (6), Heartbeat (7) and unknown types. This is the
  specification's table, not a function of the source.
\<close>

definition spec_payload_size :: "byte \<Rightarrow> nat" where
  "spec_payload_size t =
     (if t = 1 then 21 else if t = 2 then 12 else if t = 3 then 8
      else if t = 4 then 20 else if t = 5 then 13 else 0)"

text \<open>
  Concrete buffers. A CancelOrder message in the specification's framing: the 10-byte
  header (timestamp 0, type 3, symbol length 0) and the 8-byte order id 1, 18 bytes in all.
  A Heartbeat as the simulator writes it: the whole 31-byte struct with type 7 and symbol
  length 0; and two of them back to back.
\<close>

definition cancel_message :: "byte list" where
  "cancel_message = replicate 8 0 @ [3, 0] @ [1, 0, 0, 0, 0, 0, 0, 0]"

definition heartbeat_message :: "byte list" where
  "heartbeat_message = replicate 8 0 @ [7, 0] @ replicate 21 0"

definition two_heartbeats :: "byte list" where
  "two_heartbeats = heartbeat_message @ heartbeat_message"

text \<open>An AddOrder struct followed by the four bytes of the symbol \<^verbatim>\<open>AAPL\<close>, and one byte more.\<close>

definition add_message :: "byte list" where
  "add_message = replicate 8 0 @ [1, 4] @ replicate 21 0 @ [65, 65, 80, 76] @ [255]"

section \<open>The timekeeper (\<^verbatim>\<open>timekeeper.h\<close>, \<^verbatim>\<open>timekeeper.cpp\<close>)\<close>

text \<open>
  The members of \<^verbatim>\<open>class Timekeeper\<close> that the statistics use: the vector of samples
  (\<^verbatim>\<open>uint64_t\<close> nanoseconds), the sample cap and the flag \<^verbatim>\<open>sorted_\<close>. The start time
  only feeds the duration that \<^verbatim>\<open>end()\<close> measures, which is an argument here.
\<close>

record Timekeeper =
  samples :: "64 word list"
  max_samples :: nat
  sorted_flag :: bool

definition Timekeeper_new :: "nat \<Rightarrow> Timekeeper" where
  "Timekeeper_new cap = \<lparr>samples = [], max_samples = cap, sorted_flag = False\<rparr>"

text \<open>
  \<^verbatim>\<open>uint64_t Timekeeper::end()\<close> with the measured duration given: the sample is appended
  while there are fewer than \<^verbatim>\<open>max_samples_\<close>, and the duration is returned.
\<close>

definition end_measure :: "Timekeeper \<Rightarrow> 64 word \<Rightarrow> 64 word \<times> Timekeeper" where
  "end_measure tk duration =
     (if length (samples tk) < max_samples tk
      then (duration, tk\<lparr>samples := samples tk @ [duration], sorted_flag := False\<rparr>)
      else (duration, tk))"

text \<open>\<^verbatim>\<open>void Timekeeper::sort_samples()\<close>: \<^verbatim>\<open>std::sort\<close> in place, ascending and unsigned.\<close>

definition sort_samples :: "Timekeeper \<Rightarrow> Timekeeper" where
  "sort_samples tk =
     (if \<not> sorted_flag tk then tk\<lparr>samples := sort (samples tk), sorted_flag := True\<rparr> else tk)"

text \<open>
  Arithmetic on \<^verbatim>\<open>double\<close>. A finite double is given by its real value. \<open>double_round\<close>
  is the rounding of IEEE 754 binary64 to the nearest representable value, ties to the even
  significand: 53 significant bits in the binade of \<open>x\<close>, and the fixed spacing
  \<open>2^-1074\<close> below \<open>2^-1022\<close>. Beyond the largest finite double the hardware result is an
  infinity; the value here is then at least \<open>2^1023\<close>, and both are outside every range
  tested below.
\<close>

definition round_half_even :: "real \<Rightarrow> int" where
  "round_half_even q =
     (let f = \<lfloor>q\<rfloor>; d = q - of_int f
      in if d < 1 / 2 then f else if 1 / 2 < d then f + 1 else if even f then f else f + 1)"

definition double_round :: "real \<Rightarrow> real" where
  "double_round x =
     (if x = 0 then 0
      else
        (let e = max \<lfloor>log 2 \<bar>x\<bar>\<rfloor> (- 1022);
             ulp = 2 powr (of_int e - 52)
         in of_int (round_half_even (x / ulp)) * ulp))"

text \<open>
  A conversion of a \<^verbatim>\<open>double\<close> outside the range of \<^verbatim>\<open>size_t\<close> is undefined behaviour.
\<close>

datatype timekeeper_error = CastOutOfRange

text \<open>
  The two index statements of \<^verbatim>\<open>percentile\<close>, for \<open>n = samples_.size()\<close>:
  \<^verbatim>\<open>size_t idx = static_cast<size_t>(std::ceil(p * samples_.size())) - 1;\<close> and
  \<^verbatim>\<open>idx = std::min(idx, samples_.size() - 1);\<close>. The size is converted to \<^verbatim>\<open>double\<close>, the
  product is rounded, \<^verbatim>\<open>std::ceil\<close> is exact, and the cast is defined for values from 0
  to below \<open>2^64\<close>. The subtraction is in 64-bit unsigned arithmetic, where \<open>0 - 1\<close> wraps
  to \<open>2^64 - 1\<close>. \<open>p\<close> is the value of the argument, a finite double; with a NaN or an
  infinity the product is not finite and the cast is undefined as well.
\<close>

definition percentile_index :: "nat \<Rightarrow> real \<Rightarrow> timekeeper_error + 64 word" where
  "percentile_index n p =
     (let c = \<lceil>double_round (p * double_round (real n))\<rceil>
      in if c < 0 \<or> 2 ^ 64 \<le> c then Inl CastOutOfRange
         else Inr (min ((word_of_int c :: 64 word) - 1) (word_of_nat n - 1)))"

text \<open>
  \<^verbatim>\<open>double Timekeeper::percentile(double p)\<close>. The returned \<^verbatim>\<open>double\<close> is given as the
  sample it is converted from (0 for no samples). The result is the value and the
  timekeeper after the call.
\<close>

definition percentile :: "Timekeeper \<Rightarrow> real \<Rightarrow> timekeeper_error + (64 word \<times> Timekeeper)" where
  "percentile tk p =
     (if samples tk = [] then Inr (0, tk)
      else
        (let tk1 = sort_samples tk
         in case percentile_index (length (samples tk1)) p of
              Inl err \<Rightarrow> Inl err
            | Inr idx \<Rightarrow> Inr (samples tk1 ! unat idx, tk1)))"

text \<open>The double nearest to 0.07, which is \<open>1261007895663739 / 2^54\<close>.\<close>

definition double_0_07 :: real where
  "double_0_07 = 1261007895663739 / 2 ^ 54"

text \<open>A timekeeper that has recorded the durations 30, 10 and 20, in that order.\<close>

definition three_samples :: Timekeeper where
  "three_samples =
     snd (end_measure (snd (end_measure (snd (end_measure (Timekeeper_new 1000000) 30)) 10)) 20)"

section \<open>The execution engine (\<^verbatim>\<open>execution_engine.h\<close>, \<^verbatim>\<open>execution_engine.cpp\<close>)\<close>

datatype OrderStatus = NEW | PENDING | PARTIALLY_FILLED | FILLED | CANCELED | REJECTED

text \<open>\<^verbatim>\<open>struct ExecutionReport\<close> and \<^verbatim>\<open>struct ExecutionOrder\<close>, field for field.\<close>

record ExecutionReport =
  r_order_id :: OrderId
  r_status :: OrderStatus
  r_price :: Price
  r_exec_quantity :: Quantity
  r_leaves_quantity :: Quantity
  r_symbol :: string
  r_timestamp :: Timestamp

record ExecutionOrder =
  e_order_id :: OrderId
  e_price :: Price
  e_quantity :: Quantity
  e_side :: Side
  e_symbol :: string
  e_timestamp :: Timestamp

text \<open>
  Modelled from the spec: the header \<^verbatim>\<open>strategy_engine.h\<close>, which declares \<^verbatim>\<open>Signal\<close> and
  \<^verbatim>\<open>SignalType\<close>, is not among the sources. The specification gives a signal as
  \<open>{type \<in> {Buy, Sell}, symbol, price, quantity, confidence \<in> [0, 1], timestamp}\<close>, and
  \<^verbatim>\<open>submit_order\<close> reads exactly these fields of it.
\<close>

datatype SignalType = SIGNAL_BUY | SIGNAL_SELL

record Signal =
  s_type :: SignalType
  s_symbol :: string
  s_price :: Price
  s_quantity :: Quantity
  s_confidence :: real
  s_timestamp :: Timestamp

text \<open>
  What stops a call of the engine before it returns. \<open>Relock\<close>: a \<^verbatim>\<open>std::mutex\<close> is not
  recursive, and \<^verbatim>\<open>lock()\<close> by the thread that owns it is undefined behaviour, in
  practice a deadlock of the thread with itself. \<open>NullPointerWrite\<close>: an object is
  constructed or assigned through a null pointer.
\<close>

datatype engine_error = Relock | NullPointerWrite

subsection \<open>The report pool (\<^verbatim>\<open>memory_pool.h\<close>)\<close>

text \<open>
  \<^verbatim>\<open>MemoryPool<T, BlockSize = 4096>\<close>. A pointer is an address or \<open>None\<close> for
  \<^verbatim>\<open>nullptr\<close>. \<open>free_list\<close> is the atomic head pointer, \<open>slot_next\<close> the \<^verbatim>\<open>next\<close> field
  stored in the slot at each address, \<open>next_block\<close> the head of the chain of blocks and
  \<open>block_next\<close> the \<^verbatim>\<open>next\<close> field of each block. \<open>sizeof_T\<close> is \<^verbatim>\<open>sizeof(T)\<close>, which
  depends on the platform. \<^verbatim>\<open>std::malloc\<close> is taken to succeed and to hand out the
  addresses from \<open>heap_top\<close> upwards; where it fails for a block, \<^verbatim>\<open>allocate_block\<close> stops
  the program at its \<^verbatim>\<open>assert\<close>.
\<close>

record MemoryPool =
  free_list :: "nat option"
  slot_next :: "nat \<Rightarrow> nat option"
  next_block :: "nat option"
  block_next :: "nat \<Rightarrow> nat option"
  sizeof_T :: nat
  heap_top :: nat

definition BlockSize :: nat where
  "BlockSize = 4096"

definition sizeof_pointer :: nat where
  "sizeof_pointer = 8"

text \<open>\<^verbatim>\<open>std::malloc(n)\<close>: the address handed out and the pool with the heap moved on.\<close>

definition malloc :: "MemoryPool \<Rightarrow> nat \<Rightarrow> nat \<times> MemoryPool" where
  "malloc pool n = (heap_top pool, pool\<lparr>heap_top := heap_top pool + n\<rparr>)"

text \<open>
  \<^verbatim>\<open>free_list_.exchange(p)\<close>: stores \<open>p\<close> and returns the pointer that was stored before.
\<close>

definition exchange :: "MemoryPool \<Rightarrow> nat option \<Rightarrow> nat option \<times> MemoryPool" where
  "exchange pool p = (free_list pool, pool\<lparr>free_list := p\<rparr>)"

text \<open>
  \<^verbatim>\<open>slot_size\<close> and \<^verbatim>\<open>num_slots\<close> of \<^verbatim>\<open>allocate_block\<close>, and one iteration of its loop:
  the slot at \<^verbatim>\<open>block->data + i * slot_size\<close> gets the current head as its \<^verbatim>\<open>next\<close> and
  becomes the head. \<^verbatim>\<open>data\<close> follows the \<^verbatim>\<open>next\<close> pointer of the block.
\<close>

definition slot_size :: "MemoryPool \<Rightarrow> nat" where
  "slot_size pool = (if sizeof_T pool < sizeof_pointer then sizeof_pointer else sizeof_T pool)"

definition num_slots :: "MemoryPool \<Rightarrow> nat" where
  "num_slots pool = (BlockSize - sizeof_pointer) div slot_size pool"

definition push_slot :: "nat \<Rightarrow> MemoryPool \<Rightarrow> nat \<Rightarrow> MemoryPool" where
  "push_slot block pool i =
     (let ptr = block + sizeof_pointer + i * slot_size pool
      in pool\<lparr>slot_next := (slot_next pool)(ptr := free_list pool), free_list := Some ptr\<rparr>)"

definition allocate_block :: "MemoryPool \<Rightarrow> MemoryPool" where
  "allocate_block pool =
     (let (block, pool1) = malloc pool BlockSize;
          pool2 = pool1\<lparr>block_next := (block_next pool1)(block := next_block pool1),
                        next_block := Some block\<rparr>
      in foldl (push_slot block) pool2 [0..<num_slots pool2])"

text \<open>
  \<^verbatim>\<open>void* allocate()\<close>. The first \<^verbatim>\<open>exchange\<close> takes the head and stores \<^verbatim>\<open>nullptr\<close>; with
  a slot taken, the second \<^verbatim>\<open>exchange\<close> stores \<^verbatim>\<open>slot->next\<close> and its return value, the
  pointer stored before, is assigned to \<^verbatim>\<open>result\<close>.
\<close>

definition allocate :: "MemoryPool \<Rightarrow> nat option \<times> MemoryPool" where
  "allocate pool =
     (let (result, pool1) = exchange pool None
      in case result of
           Some slot \<Rightarrow> exchange pool1 (slot_next pool1 slot)
         | None \<Rightarrow>
             (let pool2 = allocate_block pool1;
                  (result2, pool3) = exchange pool2 None
              in case result2 of
                   Some slot \<Rightarrow> exchange pool3 (slot_next pool3 slot)
                 | None \<Rightarrow>
                     (let (addr, pool4) = malloc pool3 (sizeof_T pool3) in (Some addr, pool4))))"

text \<open>
  \<^verbatim>\<open>void deallocate(void* ptr)\<close>:
  \<^verbatim>\<open>slot->next = free_list_.exchange(slot, std::memory_order_acq_rel);\<close>
\<close>

definition deallocate :: "MemoryPool \<Rightarrow> nat option \<Rightarrow> MemoryPool" where
  "deallocate pool ptr =
     (case ptr of
        None \<Rightarrow> pool
      | Some slot \<Rightarrow>
          (let (old, pool1) = exchange pool (Some slot)
           in pool1\<lparr>slot_next := (slot_next pool1)(slot := old)\<rparr>))"

text \<open>
  \<^verbatim>\<open>T* get()\<close> is \<^verbatim>\<open>return new(ptr) T();\<close> on the pointer from \<^verbatim>\<open>allocate()\<close>, with no null
  check: with a null pointer the object is constructed at address 0, and the callers in the
  engine assign \<^verbatim>\<open>*report = ExecutionReport(...)\<close> through the pointer in their next
  statement. \<^verbatim>\<open>void release(T* ptr)\<close> destroys the object and deallocates.
\<close>

definition pool_get :: "MemoryPool \<Rightarrow> engine_error + (nat \<times> MemoryPool)" where
  "pool_get pool =
     (case allocate pool of
        (None, pool1) \<Rightarrow> Inl NullPointerWrite
      | (Some ptr, pool1) \<Rightarrow> Inr (ptr, pool1))"

definition pool_release :: "MemoryPool \<Rightarrow> nat option \<Rightarrow> MemoryPool" where
  "pool_release pool ptr = deallocate pool ptr"

text \<open>
  The constructor: \<^verbatim>\<open>next_block_(nullptr)\<close>, \<^verbatim>\<open>free_list_{nullptr}\<close>, then
  \<^verbatim>\<open>allocate_block()\<close>. The arguments are \<^verbatim>\<open>sizeof(T)\<close> and the first address of the heap.
\<close>

definition MemoryPool_new :: "nat \<Rightarrow> nat \<Rightarrow> MemoryPool" where
  "MemoryPool_new size_T heap =
     allocate_block \<lparr>free_list = None, slot_next = (\<lambda>a. None), next_block = None,
                     block_next = (\<lambda>a. None), sizeof_T = size_T, heap_top = heap\<rparr>"

subsection \<open>The engine\<close>

text \<open>
  The state of an \<^verbatim>\<open>ExecutionEngine\<close> as one thread sees it: the id counter, the pending
  orders, the work queue, the report pool, and \<^verbatim>\<open>mutex_\<close>, a \<^verbatim>\<open>std::mutex\<close>, as the flag
  whether the running thread holds it. \<^verbatim>\<open>execution_callback_\<close> is a \<^verbatim>\<open>std::function\<close>
  that may be empty: \<open>callback_set\<close> says whether it is set, and \<open>reports\<close> collects, in
  order, the reports it has been called with.
\<close>

record ExecutionEngine =
  next_order_id :: OrderId
  pending_orders :: "OrderId \<rightharpoonup> ExecutionOrder"
  order_queue :: "OrderId list"
  report_pool :: MemoryPool
  mutex_locked :: bool
  callback_set :: bool
  reports :: "ExecutionReport list"

definition lock_mutex :: "ExecutionEngine \<Rightarrow> engine_error + ExecutionEngine" where
  "lock_mutex eng = (if mutex_locked eng then Inl Relock else Inr (eng\<lparr>mutex_locked := True\<rparr>))"

definition unlock_mutex :: "ExecutionEngine \<Rightarrow> ExecutionEngine" where
  "unlock_mutex eng = eng\<lparr>mutex_locked := False\<rparr>"

text \<open>
  The constructor, with \<^verbatim>\<open>sizeof(ExecutionReport)\<close> and the first heap address for the
  pool it builds; \<^verbatim>\<open>set_execution_callback\<close> is folded in as the first argument.
\<close>

definition ExecutionEngine_new :: "bool \<Rightarrow> nat \<Rightarrow> nat \<Rightarrow> ExecutionEngine" where
  "ExecutionEngine_new with_callback sizeof_report heap =
     \<lparr>next_order_id = 1, pending_orders = Map.empty, order_queue = [],
      report_pool = MemoryPool_new sizeof_report heap, mutex_locked = False,
      callback_set = with_callback, reports = []\<rparr>"

text \<open>\<^verbatim>\<open>if (execution_callback_) { execution_callback_(*report); }\<close>\<close>

definition send_report :: "ExecutionEngine \<Rightarrow> ExecutionReport \<Rightarrow> ExecutionEngine" where
  "send_report eng report =
     (if callback_set eng then eng\<lparr>reports := reports eng @ [report]\<rparr> else eng)"

text \<open>
  \<^verbatim>\<open>OrderId ExecutionEngine::submit_order(const Signal& signal)\<close>, statement by statement;
  \<open>now\<close> is the reading of the system clock. The report is taken from the pool before the
  order is inserted; the \<^verbatim>\<open>lock_guard\<close> covers the block that inserts the order and
  pushes its id.
\<close>

definition submit_order ::
  "ExecutionEngine \<Rightarrow> Signal \<Rightarrow> Timestamp \<Rightarrow> engine_error + (OrderId \<times> ExecutionEngine)" where
  "submit_order eng signal now =
     (let order_id = next_order_id eng;
          eng1 = eng\<lparr>next_order_id := next_order_id eng + 1\<rparr>;
          order = \<lparr>e_order_id = order_id, e_price = s_price signal, e_quantity = s_quantity signal,
                   e_side = (if s_type signal = SIGNAL_BUY then BUY else SELL),
                   e_symbol = s_symbol signal, e_timestamp = s_timestamp signal\<rparr>
      in case pool_get (report_pool eng1) of
           Inl err \<Rightarrow> Inl err
         | Inr (report_ptr, pool1) \<Rightarrow>
             (let eng2 = eng1\<lparr>report_pool := pool1\<rparr>;
                  report = \<lparr>r_order_id = order_id, r_status = NEW, r_price = s_price signal,
                            r_exec_quantity = 0, r_leaves_quantity = s_quantity signal,
                            r_symbol = s_symbol signal, r_timestamp = now\<rparr>
              in case lock_mutex eng2 of
                   Inl err \<Rightarrow> Inl err
                 | Inr eng3 \<Rightarrow>
                     (let eng4 = eng3\<lparr>pending_orders := (pending_orders eng3)(order_id \<mapsto> order),
                                      order_queue := order_queue eng3 @ [order_id]\<rparr>;
                          eng5 = unlock_mutex eng4;
                          eng6 = send_report eng5 report;
                          eng7 = eng6\<lparr>report_pool :=
                                        pool_release (report_pool eng6) (Some report_ptr)\<rparr>
                      in Inr (order_id, eng7))))"

text \<open>
  \<^verbatim>\<open>OrderStatus ExecutionEngine::get_order_status(OrderId order_id) const\<close>: it takes a
  \<^verbatim>\<open>lock_guard\<close> on \<^verbatim>\<open>mutex_\<close> first, and releases it on return, so that it leaves the
  engine as it found it.
\<close>

definition get_order_status :: "ExecutionEngine \<Rightarrow> OrderId \<Rightarrow> engine_error + OrderStatus" where
  "get_order_status eng order_id =
     (case lock_mutex eng of
        Inl err \<Rightarrow> Inl err
      | Inr eng1 \<Rightarrow>
          Inr (case pending_orders eng1 order_id of
                 None \<Rightarrow> REJECTED
               | Some order \<Rightarrow>
                   if order_id \<notin> set (order_queue eng1) then FILLED
                   else if hd (order_queue eng1) = order_id then PENDING
                   else NEW))"

text \<open>
  \<^verbatim>\<open>bool ExecutionEngine::cancel_order(OrderId order_id)\<close>, statement by statement. Its
  first statement is a \<^verbatim>\<open>lock_guard\<close> on \<^verbatim>\<open>mutex_\<close>, held to the end of the function;
  with the order found it calls \<^verbatim>\<open>get_order_status(order_id)\<close> while holding it. The
  statements after that take the report from the pool, erase the order, call the callback
  and release the report.
\<close>

definition engine_cancel_order ::
  "ExecutionEngine \<Rightarrow> OrderId \<Rightarrow> Timestamp \<Rightarrow> engine_error + (bool \<times> ExecutionEngine)" where
  "engine_cancel_order eng order_id now =
     (case lock_mutex eng of
        Inl err \<Rightarrow> Inl err
      | Inr eng1 \<Rightarrow>
          (case pending_orders eng1 order_id of
             None \<Rightarrow> Inr (False, unlock_mutex eng1)
           | Some order \<Rightarrow>
               (case get_order_status eng1 order_id of
                  Inl err \<Rightarrow> Inl err
                | Inr status \<Rightarrow>
                    if status = FILLED then Inr (False, unlock_mutex eng1)
                    else
                      (case pool_get (report_pool eng1) of
                         Inl err \<Rightarrow> Inl err
                       | Inr (report_ptr, pool1) \<Rightarrow>
                           (let eng2 = eng1\<lparr>report_pool := pool1\<rparr>;
                                report = \<lparr>r_order_id = order_id, r_status = CANCELED,
                                          r_price = e_price order, r_exec_quantity = 0,
                                          r_leaves_quantity = e_quantity order,
                                          r_symbol = e_symbol order, r_timestamp = now\<rparr>;
                                eng3 = eng2\<lparr>pending_orders :=
                                              (pending_orders eng2)(order_id := None)\<rparr>;
                                eng4 = send_report eng3 report;
                                eng5 = eng4\<lparr>report_pool :=
                                              pool_release (report_pool eng4) (Some report_ptr)\<rparr>
                            in Inr (True, unlock_mutex eng5))))))"

text \<open>
  A buy signal for 5 at 101.00; a new engine with a callback set, for a report of 72 bytes;
  and that engine with the fields as the first \<^verbatim>\<open>submit_order\<close> is written to leave them
  for this signal: the id counter at 2, order 1 pending and at the head of the queue, the
  NEW report delivered, the mutex free.
\<close>

definition buy_signal :: Signal where
  "buy_signal = \<lparr>s_type = SIGNAL_BUY, s_symbol = ''AAPL'', s_price = 10100, s_quantity = 5,
                 s_confidence = 1, s_timestamp = 0\<rparr>"

definition new_engine :: ExecutionEngine where
  "new_engine = ExecutionEngine_new True 72 4096"


section \<open>The single-producer single-consumer queue (\<^verbatim>\<open>lockfree_queue.h\<close>)\<close>

text \<open>
  \<^verbatim>\<open>LockFreeQueue<T, Capacity>\<close> used by one thread at a time: the slot array and the two
  positions, which are \<^verbatim>\<open>size_t\<close> counters that only ever grow (modulo \<open>2^64\<close>). The
  template argument \<^verbatim>\<open>Capacity\<close>, a \<^verbatim>\<open>size_t\<close>, is the first argument of each operation.
  The storage is uninitialised at construction: its first contents are an argument of the
  constructor, and the statements below hold whatever they are. Destroying the element
  that \<^verbatim>\<open>try_pop\<close> has moved out does not change any other slot or either position.
\<close>

record 'a LockFreeQueue =
  buffer :: "'a list"
  read_pos :: "64 word"
  write_pos :: "64 word"

definition LockFreeQueue_new :: "'a list \<Rightarrow> 'a LockFreeQueue" where
  "LockFreeQueue_new storage = \<lparr>buffer = storage, read_pos = 0, write_pos = 0\<rparr>"

text \<open>\<^verbatim>\<open>bool try_push(const T& value)\<close>, and the overload taking \<^verbatim>\<open>T&&\<close>, which differs only in moving.\<close>

definition try_push :: "64 word \<Rightarrow> 'a LockFreeQueue \<Rightarrow> 'a \<Rightarrow> bool \<times> 'a LockFreeQueue" where
  "try_push Capacity q v =
     (if write_pos q - read_pos q \<ge> Capacity then (False, q)
      else (True, q\<lparr>buffer := (buffer q)[unat (write_pos q) mod unat Capacity := v],
                    write_pos := write_pos q + 1\<rparr>))"

text \<open>\<^verbatim>\<open>std::optional<T> try_pop()\<close>\<close>

definition try_pop :: "64 word \<Rightarrow> 'a LockFreeQueue \<Rightarrow> 'a option \<times> 'a LockFreeQueue" where
  "try_pop Capacity q =
     (if read_pos q \<ge> write_pos q then (None, q)
      else (Some (buffer q ! (unat (read_pos q) mod unat Capacity)),
            q\<lparr>read_pos := read_pos q + 1\<rparr>))"

text \<open>
  A sequential use of the queue: a list of calls, run in order. The run keeps the queue
  together with the values whose push succeeded and the values that were popped, both in
  order.
\<close>

datatype 'a queue_op = Push 'a | Pop

fun run_ops ::
  "64 word \<Rightarrow> 'a queue_op list \<Rightarrow> 'a LockFreeQueue \<times> 'a list \<times> 'a list
     \<Rightarrow> 'a LockFreeQueue \<times> 'a list \<times> 'a list" where
  "run_ops Capacity [] st = st"
| "run_ops Capacity (Push v # ops) (q, pushed, popped) =
     (case try_push Capacity q v of
        (True, q') \<Rightarrow> run_ops Capacity ops (q', pushed @ [v], popped)
      | (False, q') \<Rightarrow> run_ops Capacity ops (q', pushed, popped))"
| "run_ops Capacity (Pop # ops) (q, pushed, popped) =
     (case try_pop Capacity q of
        (Some v, q') \<Rightarrow> run_ops Capacity ops (q', pushed, popped @ [v])
      | (None, q') \<Rightarrow> run_ops Capacity ops (q', pushed, popped))"

text \<open>
  The invariant of a run. The popped values are the first of the pushed ones. Either no
  counter has wrapped, the positions are the numbers of pops and of pushes, at most
  \<^verbatim>\<open>Capacity\<close> values are waiting and the waiting value number \<open>i\<close> is in slot
  \<open>i mod Capacity\<close>; or the write position has wrapped past \<open>2^64\<close> and is below the read
  position, which makes every later \<^verbatim>\<open>try_pop\<close> fail.
\<close>

definition queue_inv :: "64 word \<Rightarrow> 'a LockFreeQueue \<times> 'a list \<times> 'a list \<Rightarrow> bool" where
  "queue_inv Capacity st =
     (case st of (q, pushed, popped) \<Rightarrow>
        length (buffer q) = unat Capacity
        \<and> length popped \<le> length pushed
        \<and> popped = take (length popped) pushed
        \<and> ((length pushed < 2 ^ 64
             \<and> read_pos q = of_nat (length popped)
             \<and> write_pos q = of_nat (length pushed)
             \<and> length pushed - length popped \<le> unat Capacity
             \<and> (\<forall>i. length popped \<le> i \<and> i < length pushed \<longrightarrow>
                    buffer q ! (i mod unat Capacity) = pushed ! i))
            \<or> write_pos q < read_pos q))"

text \<open>
  A run on a queue of capacity 2: the third push finds the queue full and the third pop
  finds it empty.
\<close>

definition example_ops :: "nat queue_op list" where
  "example_ops = [Push 1, Push 2, Push 3, Pop, Pop, Pop, Push 4, Pop]"

definition example_run :: "nat LockFreeQueue \<times> nat list \<times> nat list" where
  "example_run = run_ops 2 example_ops (LockFreeQueue_new [0, 0], [], [])"
section \<open>Properties of the order book\<close>


lemma levels_length [simp]:
  "length (set_level_price levels i p) = length levels"
  "length (add_level_quantity levels i q) = length levels"
  "length (sub_level_quantity levels i q) = length levels"
  by (simp_all add: set_level_price_def add_level_quantity_def sub_level_quantity_def)

lemma update_best_prices_fields [simp]:
  "bid_levels (update_best_prices b) = bid_levels b"
  "ask_levels (update_best_prices b) = ask_levels b"
  "orders (update_best_prices b) = orders b"
  "symbol (update_best_prices b) = symbol b"
  "best_bid (update_best_prices b) = foldl bid_step None (bid_levels b)"
  "best_ask (update_best_prices b) = foldl ask_step None (ask_levels b)"
  by (simp_all add: update_best_prices_def)

lemma best_fresh_update: "best_fresh (update_best_prices b)"
  by (simp add: best_fresh_def)

lemma best_fresh_new: "best_fresh (OrderBook_new symb c)"
  by (induction c) (simp_all add: best_fresh_def OrderBook_new_def OrderBookLevel_default_def bid_step_def ask_step_def)

lemma reachable_best_fresh: "reachable c b \<Longrightarrow> best_fresh b"
proof (induction rule: reachable.induct)
  case (r_new c symb) show ?case by (rule best_fresh_new)
next
  case (r_add c b order) show ?case by (simp add: add_order_def Let_def best_fresh_update)
next
  case (r_modify c b order_id new_quantity)
  then show ?case by (simp add: modify_order_def Let_def best_fresh_update split: option.split)
next
  case (r_cancel c b order_id)
  then show ?case by (simp add: cancel_order_def Let_def best_fresh_update split: option.split)
next
  case (r_execute c b order_id exec_quantity)
  then show ?case by (simp add: execute_order_def Let_def best_fresh_update split: option.split)
qed

lemma nonempty_levels_Nil [simp]: "nonempty_levels [] = {}"
  by (simp add: nonempty_levels_def)

lemma nonempty_levels_Cons [simp]:
  "nonempty_levels (x # xs) = (if 0 < l_quantity x then insert x (nonempty_levels xs) else nonempty_levels xs)"
  by (auto simp: nonempty_levels_def)

lemma foldl_bid_step_Some:
  "\<exists>m. foldl bid_step (Some a) levels = Some m \<and> m \<in> insert a (l_price ` nonempty_levels levels)
       \<and> (\<forall>p \<in> insert a (l_price ` nonempty_levels levels). sint p \<le> sint m)"
proof (induction levels arbitrary: a)
  case Nil show ?case by simp
next
  case (Cons x xs)
  show ?case
  proof (cases "0 < l_quantity x \<and> a <s l_price x")
    case True
    then have st: "bid_step (Some a) x = Some (l_price x)" by (simp add: bid_step_def)
    from True have lt: "sint a < sint (l_price x)" by (simp add: word_sless_alt)
    from Cons.IH [of "l_price x"] obtain m where m: "foldl bid_step (Some (l_price x)) xs = Some m"
      "m \<in> insert (l_price x) (l_price ` nonempty_levels xs)"
      "\<forall>p \<in> insert (l_price x) (l_price ` nonempty_levels xs). sint p \<le> sint m" by blast
    from m(3) lt have "sint a \<le> sint m" by force
    with m st True show ?thesis by auto
  next
    case False
    then have st: "bid_step (Some a) x = Some a" by (simp add: bid_step_def)
    from False have ge: "0 < l_quantity x \<Longrightarrow> sint (l_price x) \<le> sint a" by (simp add: word_sless_alt)
    from Cons.IH [of a] obtain m where m: "foldl bid_step (Some a) xs = Some m"
      "m \<in> insert a (l_price ` nonempty_levels xs)"
      "\<forall>p \<in> insert a (l_price ` nonempty_levels xs). sint p \<le> sint m" by blast
    from m(3) have "sint a \<le> sint m" by simp
    with ge have "0 < l_quantity x \<Longrightarrow> sint (l_price x) \<le> sint m" by simp
    with m st show ?thesis by auto
  qed
qed

lemma foldl_bid_step_None:
  "nonempty_levels levels \<noteq> {} \<Longrightarrow>
   \<exists>m. foldl bid_step None levels = Some m \<and> m \<in> l_price ` nonempty_levels levels
       \<and> (\<forall>p \<in> l_price ` nonempty_levels levels. sint p \<le> sint m)"
proof (induction levels)
  case Nil then show ?case by simp
next
  case (Cons x xs)
  show ?case
  proof (cases "0 < l_quantity x")
    case True
    then have "bid_step None x = Some (l_price x)" by (simp add: bid_step_def)
    with True foldl_bid_step_Some [of "l_price x" xs] show ?thesis by auto
  next
    case False
    then have "bid_step None x = None" by (simp add: bid_step_def)
    with False Cons show ?thesis by simp
  qed
qed

lemma best_bid_is_Max:
  assumes "nonempty_levels levels \<noteq> {}"
  shows "\<exists>m. foldl bid_step None levels = Some m \<and> m \<in> l_price ` nonempty_levels levels
       \<and> sint m = Max (sint ` l_price ` nonempty_levels levels)"
proof -
  from foldl_bid_step_None [OF assms] obtain m where m: "foldl bid_step None levels = Some m"
    "m \<in> l_price ` nonempty_levels levels" "\<forall>p \<in> l_price ` nonempty_levels levels. sint p \<le> sint m"
    by blast
  have fin: "finite (sint ` l_price ` nonempty_levels levels)" by (simp add: nonempty_levels_def)
  have "Max (sint ` l_price ` nonempty_levels levels) = sint m"
    using fin m(2,3) by (intro Max_eqI) auto
  with m show ?thesis by auto
qed


lemma foldl_ask_step_Some:
  "\<exists>m. foldl ask_step (Some a) levels = Some m \<and> m \<in> insert a (l_price ` nonempty_levels levels)
       \<and> (\<forall>p \<in> insert a (l_price ` nonempty_levels levels). sint m \<le> sint p)"
proof (induction levels arbitrary: a)
  case Nil show ?case by simp
next
  case (Cons x xs)
  show ?case
  proof (cases "0 < l_quantity x \<and> l_price x <s a")
    case True
    then have st: "ask_step (Some a) x = Some (l_price x)" by (simp add: ask_step_def)
    from True have lt: "sint (l_price x) < sint a" by (simp add: word_sless_alt)
    from Cons.IH [of "l_price x"] obtain m where m: "foldl ask_step (Some (l_price x)) xs = Some m"
      "m \<in> insert (l_price x) (l_price ` nonempty_levels xs)"
      "\<forall>p \<in> insert (l_price x) (l_price ` nonempty_levels xs). sint m \<le> sint p" by blast
    from m(3) lt have "sint m \<le> sint a" by force
    with m st True show ?thesis by auto
  next
    case False
    then have st: "ask_step (Some a) x = Some a" by (simp add: ask_step_def)
    from False have ge: "0 < l_quantity x \<Longrightarrow> sint a \<le> sint (l_price x)" by (simp add: word_sless_alt)
    from Cons.IH [of a] obtain m where m: "foldl ask_step (Some a) xs = Some m"
      "m \<in> insert a (l_price ` nonempty_levels xs)"
      "\<forall>p \<in> insert a (l_price ` nonempty_levels xs). sint m \<le> sint p" by blast
    from m(3) have "sint m \<le> sint a" by simp
    with ge have "0 < l_quantity x \<Longrightarrow> sint m \<le> sint (l_price x)" by simp
    with m st show ?thesis by auto
  qed
qed

lemma foldl_ask_step_None:
  "nonempty_levels levels \<noteq> {} \<Longrightarrow>
   \<exists>m. foldl ask_step None levels = Some m \<and> m \<in> l_price ` nonempty_levels levels
       \<and> (\<forall>p \<in> l_price ` nonempty_levels levels. sint m \<le> sint p)"
proof (induction levels)
  case Nil then show ?case by simp
next
  case (Cons x xs)
  show ?case
  proof (cases "0 < l_quantity x")
    case True
    then have "ask_step None x = Some (l_price x)" by (simp add: ask_step_def)
    with True foldl_ask_step_Some [of "l_price x" xs] show ?thesis by auto
  next
    case False
    then have "ask_step None x = None" by (simp add: ask_step_def)
    with False Cons show ?thesis by simp
  qed
qed

lemma best_ask_is_Min:
  assumes "nonempty_levels levels \<noteq> {}"
  shows "\<exists>m. foldl ask_step None levels = Some m \<and> m \<in> l_price ` nonempty_levels levels
       \<and> sint m = Min (sint ` l_price ` nonempty_levels levels)"
proof -
  from foldl_ask_step_None [OF assms] obtain m where m: "foldl ask_step None levels = Some m"
    "m \<in> l_price ` nonempty_levels levels" "\<forall>p \<in> l_price ` nonempty_levels levels. sint m \<le> sint p"
    by blast
  have fin: "finite (sint ` l_price ` nonempty_levels levels)" by (simp add: nonempty_levels_def)
  have "Min (sint ` l_price ` nonempty_levels levels) = sint m"
    using fin m(2,3) by (intro Min_eqI) auto
  with m show ?thesis by auto
qed

text \<open>
  Claim C1, as the code has it: in every book reachable through \<^verbatim>\<open>add_order\<close>,
  \<^verbatim>\<open>modify_order\<close>, \<^verbatim>\<open>cancel_order\<close> and \<^verbatim>\<open>execute_order\<close>, when some bid level has a
  positive quantity \<^verbatim>\<open>best_bid()\<close> is the price of such a level and is the (signed) maximum
  of their prices; when some ask level has a positive quantity \<^verbatim>\<open>best_ask()\<close> is the
  minimum of theirs. Nothing relates the two sides.
\<close>

theorem best_prices_extremal:
  assumes "reachable c b"
  shows "(nonempty_levels (bid_levels b) \<noteq> {} \<longrightarrow>
            (\<exists>m. best_bid b = Some m \<and> m \<in> l_price ` nonempty_levels (bid_levels b)
                \<and> sint m = Max (sint ` l_price ` nonempty_levels (bid_levels b))))
       \<and> (nonempty_levels (ask_levels b) \<noteq> {} \<longrightarrow>
            (\<exists>m. best_ask b = Some m \<and> m \<in> l_price ` nonempty_levels (ask_levels b)
                \<and> sint m = Min (sint ` l_price ` nonempty_levels (ask_levels b))))"
proof -
  from assms have "best_fresh b" by (rule reachable_best_fresh)
  then have "best_bid b = foldl bid_step None (bid_levels b)"
    and "best_ask b = foldl ask_step None (ask_levels b)" by (simp_all add: best_fresh_def)
  then show ?thesis using best_bid_is_Max [of "bid_levels b"] best_ask_is_Min [of "ask_levels b"]
    by simp
qed


lemma reachable_crossed_book: "reachable 256 crossed_book"
  unfolding crossed_book_def by (intro r_add r_new) simp

lemma nonempty_levels_nthI:
  "i < length levels \<Longrightarrow> 0 < l_quantity (levels ! i) \<Longrightarrow> nonempty_levels levels \<noteq> {}"
  by (auto simp: nonempty_levels_def in_set_conv_nth)

lemma crossed_book_bid_slot: "l_quantity (bid_levels crossed_book ! 66) = 10 \<and> length (bid_levels crossed_book) = 256"
  by code_simp

lemma crossed_book_ask_slot: "l_quantity (ask_levels crossed_book ! 16) = 5 \<and> length (ask_levels crossed_book) = 256"
  by code_simp

text \<open>
  Witness for C1: the reachable book \<open>crossed_book\<close> has a non-empty level on each side.
\<close>

theorem best_prices_extremal_witness:
  "reachable 256 crossed_book \<and> nonempty_levels (bid_levels crossed_book) \<noteq> {}
   \<and> nonempty_levels (ask_levels crossed_book) \<noteq> {}
   \<and> (\<exists>m. best_bid crossed_book = Some m
         \<and> sint m = Max (sint ` l_price ` nonempty_levels (bid_levels crossed_book)))
   \<and> (\<exists>m. best_ask crossed_book = Some m
         \<and> sint m = Min (sint ` l_price ` nonempty_levels (ask_levels crossed_book)))"
proof -
  have nb: "nonempty_levels (bid_levels crossed_book) \<noteq> {}"
    using crossed_book_bid_slot by (intro nonempty_levels_nthI [of 66]) simp_all
  have na: "nonempty_levels (ask_levels crossed_book) \<noteq> {}"
    using crossed_book_ask_slot by (intro nonempty_levels_nthI [of 16]) simp_all
  from best_prices_extremal [OF reachable_crossed_book] nb na reachable_crossed_book
  show ?thesis by blast
qed

text \<open>
  Counterexample to C1 as stated: \<^verbatim>\<open>add_order\<close> accepts a sell at 100.00 below the resting
  buy at 100.50, and the reachable book then has \<^verbatim>\<open>best_bid = 10050\<close> and
  \<^verbatim>\<open>best_ask = 10000\<close>: both present, and not \<^verbatim>\<open>best_bid < best_ask\<close>.
\<close>

theorem crossed_book_counterexample:
  "reachable 256 crossed_book \<and> best_bid crossed_book = Some 10050
   \<and> best_ask crossed_book = Some 10000 \<and> \<not> (10050 <s (10000 :: Price))"
proof -
  have "best_bid crossed_book = Some 10050" by code_simp
  moreover have "best_ask crossed_book = Some 10000" by code_simp
  moreover have "\<not> (10050 <s (10000 :: Price))" by simp
  ultimately show ?thesis using reachable_crossed_book by simp
qed


lemma reachable_shape:
  "reachable c b \<Longrightarrow> 0 < c \<and> length (bid_levels b) = c \<and> length (ask_levels b) = c"
proof (induction rule: reachable.induct)
  case (r_new c symb) then show ?case by (simp add: OrderBook_new_def)
next
  case (r_add c b order) then show ?case by (simp add: add_order_def Let_def)
next
  case (r_modify c b order_id new_quantity)
  then show ?case by (simp add: modify_order_def Let_def split: option.split)
next
  case (r_cancel c b order_id)
  then show ?case by (simp add: cancel_order_def Let_def split: option.split)
next
  case (r_execute c b order_id exec_quantity)
  then show ?case by (simp add: execute_order_def Let_def split: option.split)
qed


lemma nth_add_level_quantity:
  "j < length levels \<Longrightarrow>
   add_level_quantity levels i q ! j =
     (if j = i then (levels ! j)\<lparr>l_quantity := l_quantity (levels ! j) + q\<rparr> else levels ! j)"
  by (simp add: add_level_quantity_def nth_list_update)

lemma nth_set_level_price:
  "j < length levels \<Longrightarrow>
   set_level_price levels i p ! j =
     (if j = i then (levels ! j)\<lparr>l_price := p\<rparr> else levels ! j)"
  by (simp add: set_level_price_def nth_list_update)








text \<open>
  Claim C5, as the code has it: \<^verbatim>\<open>add_order\<close> returns nothing and looks nothing up. With
  an id that is already in the index it stores the new order over the old entry, writes the
  order's price into the slot of that price on the order's side and adds the order's
  quantity to that slot (the old entry's quantity stays in its slot), changes no other
  slot, and recomputes the best prices.
\<close>

theorem add_order_existing_id:
  assumes "reachable c b" and "orders b (o_id order) = Some old"
  shows "let b' = add_order b order; i = unat (o_price order) mod c in
     orders b' = (orders b)(o_id order \<mapsto> order)
     \<and> length (bid_levels b') = c \<and> length (ask_levels b') = c
     \<and> (\<forall>j<c. bid_levels b' ! j =
           (if o_side order = BUY \<and> j = i
            then \<lparr>l_price = o_price order,
                  l_quantity = l_quantity (bid_levels b ! j) + o_quantity order\<rparr>
            else bid_levels b ! j))
     \<and> (\<forall>j<c. ask_levels b' ! j =
           (if o_side order = SELL \<and> j = i
            then \<lparr>l_price = o_price order,
                  l_quantity = l_quantity (ask_levels b ! j) + o_quantity order\<rparr>
            else ask_levels b ! j))
     \<and> best_fresh b'"
proof -
  from assms(1) have sh: "0 < c" "length (bid_levels b) = c" "length (ask_levels b) = c"
    using reachable_shape by blast+
  show ?thesis
  proof (cases "o_side order")
    case BUY
    with sh show ?thesis
      by (simp add: add_order_def Let_def price_to_index_def best_fresh_update
          nth_add_level_quantity nth_set_level_price)
  next
    case SELL
    with sh show ?thesis
      by (simp add: add_order_def Let_def price_to_index_def best_fresh_update
          nth_add_level_quantity nth_set_level_price)
  qed
qed

lemma reachable_one_order_book: "reachable 256 one_order_book"
  unfolding one_order_book_def by (intro r_add r_new) simp

lemma orders_one_order_book_1: "orders one_order_book 1 = Some first_order"
  by (simp add: one_order_book_def add_order_def Let_def first_order_def Order_new_def)

lemma first_order_fields:
  "o_id first_order = 1" "o_price first_order = 10050" "o_quantity first_order = 10"
  "o_original_quantity first_order = 10" "o_side first_order = BUY"
  by (simp_all add: first_order_def Order_new_def)

lemma one_order_book_slot: "bid_levels one_order_book ! 66 = \<lparr>l_price = 10050, l_quantity = 10\<rparr>"
  by (simp add: one_order_book_def add_order_def Let_def first_order_fields price_to_index_def
      OrderBook_new_def nth_add_level_quantity nth_set_level_price OrderBookLevel_default_def)

text \<open>
  Witness for C5: adding order 1 a second time to the book that holds it.
\<close>

theorem add_order_existing_id_witness:
  "reachable 256 one_order_book \<and> orders one_order_book (o_id first_order) = Some first_order
   \<and> orders (add_order one_order_book first_order) 1 = Some first_order
   \<and> bid_levels (add_order one_order_book first_order) ! 66 = \<lparr>l_price = 10050, l_quantity = 20\<rparr>
   \<and> best_fresh (add_order one_order_book first_order)"
proof -
  have o: "orders one_order_book (o_id first_order) = Some first_order"
    by (simp add: first_order_fields orders_one_order_book_1)
  from add_order_existing_id [OF reachable_one_order_book o]
  show ?thesis
    using o reachable_one_order_book one_order_book_slot
    by (simp add: Let_def first_order_fields)
qed

text \<open>
  Counterexample to C5 as stated: adding order 1 (10 at 100.50) to the book that already
  holds it is not a no-op; slot 66 of the bid table goes from 10 to 20.
\<close>

theorem duplicate_add_counterexample:
  "orders one_order_book (o_id first_order) = Some first_order
   \<and> l_quantity (bid_levels one_order_book ! 66) = 10
   \<and> l_quantity (bid_levels (add_order one_order_book first_order) ! 66) = 20
   \<and> add_order one_order_book first_order \<noteq> one_order_book"
proof -
  have a: "l_quantity (bid_levels one_order_book ! 66) = 10" by (simp add: one_order_book_slot)
  have b: "l_quantity (bid_levels (add_order one_order_book first_order) ! 66) = 20"
    using reachable_shape [OF reachable_one_order_book] one_order_book_slot
    by (simp add: add_order_def Let_def first_order_fields price_to_index_def
        nth_add_level_quantity nth_set_level_price)
  from a b have "add_order one_order_book first_order \<noteq> one_order_book" by auto
  with a b show ?thesis by (simp add: first_order_fields orders_one_order_book_1)
qed


lemma orders_ok_new: "orders_ok (OrderBook_new symb c)"
  by (simp add: orders_ok_def OrderBook_new_def)

text \<open>
  Claim C6, as the code has it. \<^verbatim>\<open>cancel_order\<close> and \<^verbatim>\<open>execute_order\<close> keep the property
  that every resting order has \<^verbatim>\<open>quantity \<le> original_quantity\<close> and none has quantity 0.
  \<^verbatim>\<open>add_order\<close> stores the order it is given, so it keeps the property for an order with
  \<^verbatim>\<open>0 < quantity \<le> original_quantity\<close>. \<^verbatim>\<open>modify_order(id, n)\<close> writes \<^verbatim>\<open>n\<close> unchecked
  and never removes the order, so it keeps the property when
  \<^verbatim>\<open>0 < n \<le> original_quantity\<close> (and changes nothing for an unknown id).
\<close>

theorem resting_quantities_preserved:
  assumes "orders_ok b"
  shows "orders_ok (snd (cancel_order b order_id))
     \<and> orders_ok (snd (execute_order b order_id exec_quantity))
     \<and> (0 < o_quantity order \<and> o_quantity order \<le> o_original_quantity order \<longrightarrow>
          orders_ok (add_order b order))
     \<and> (\<forall>old. orders b order_id = Some old \<and> 0 < new_quantity
            \<and> new_quantity \<le> o_original_quantity old \<longrightarrow>
          orders_ok (snd (modify_order b order_id new_quantity)))
     \<and> (orders b order_id = None \<longrightarrow> snd (modify_order b order_id new_quantity) = b)"
proof -
  have c: "orders_ok (snd (cancel_order b order_id))"
    using assms by (auto simp: orders_ok_def cancel_order_def Let_def split: option.split if_splits)
  have sub: "\<And>(x::Quantity) y. y \<le> x \<Longrightarrow> x - y \<le> x"
    by (simp add: word_sub_le)
  have e: "orders_ok (snd (execute_order b order_id exec_quantity))"
  proof (cases "orders b order_id")
    case None then show ?thesis using assms by (simp add: execute_order_def)
  next
    case (Some ord)
    show ?thesis
    proof (cases "o_quantity ord < exec_quantity")
      case True with Some show ?thesis using assms by (simp add: execute_order_def)
    next
      case False
      then have le: "exec_quantity \<le> o_quantity ord" by (simp add: not_less)
      from assms Some have "o_quantity ord \<le> o_original_quantity ord" by (simp add: orders_ok_def)
      with sub [OF le] have "o_quantity ord - exec_quantity \<le> o_original_quantity ord" by simp
      with Some False assms show ?thesis
        by (auto simp: orders_ok_def execute_order_def Let_def split: if_splits)
    qed
  qed
  have a: "0 < o_quantity order \<and> o_quantity order \<le> o_original_quantity order \<longrightarrow>
          orders_ok (add_order b order)"
    using assms by (auto simp: orders_ok_def add_order_def Let_def split: if_splits)
  have m: "\<forall>old. orders b order_id = Some old \<and> 0 < new_quantity
            \<and> new_quantity \<le> o_original_quantity old \<longrightarrow>
          orders_ok (snd (modify_order b order_id new_quantity))"
    using assms by (auto simp: orders_ok_def modify_order_def Let_def split: if_splits)
  have n: "orders b order_id = None \<longrightarrow> snd (modify_order b order_id new_quantity) = b"
    by (simp add: modify_order_def)
  from c e a m n show ?thesis by blast
qed

lemma orders_ok_one_order_book: "orders_ok one_order_book"
  by (simp add: orders_ok_def one_order_book_def add_order_def Let_def first_order_fields
      OrderBook_new_def)

text \<open>
  Witness for C6 on the book with one resting buy of 10.
\<close>

theorem resting_quantities_preserved_witness:
  "orders_ok one_order_book
   \<and> orders_ok (snd (cancel_order one_order_book 1))
   \<and> orders_ok (snd (execute_order one_order_book 1 4))
   \<and> 0 < o_quantity (Order_new 2 10000 5 SELL 0 ''AAPL'')
   \<and> o_quantity (Order_new 2 10000 5 SELL 0 ''AAPL'')
        \<le> o_original_quantity (Order_new 2 10000 5 SELL 0 ''AAPL'')
   \<and> orders_ok (add_order one_order_book (Order_new 2 10000 5 SELL 0 ''AAPL''))
   \<and> orders one_order_book 1 = Some first_order \<and> (0 :: Quantity) < 7
   \<and> 7 \<le> o_original_quantity first_order
   \<and> orders_ok (snd (modify_order one_order_book 1 7))
   \<and> orders one_order_book 9 = None \<and> snd (modify_order one_order_book 9 7) = one_order_book"
proof -
  have n9: "orders one_order_book 9 = None"
    by (simp add: one_order_book_def add_order_def Let_def first_order_fields OrderBook_new_def)
  have f: "0 < o_quantity (Order_new 2 10000 5 SELL 0 ''AAPL'')"
     "o_quantity (Order_new 2 10000 5 SELL 0 ''AAPL'')
        \<le> o_original_quantity (Order_new 2 10000 5 SELL 0 ''AAPL'')"
    by (simp_all add: Order_new_def)
  from resting_quantities_preserved [OF orders_ok_one_order_book, of 1 4 "Order_new 2 10000 5 SELL 0 ''AAPL''" 7]
       resting_quantities_preserved [OF orders_ok_one_order_book, of 9 4 "Order_new 2 10000 5 SELL 0 ''AAPL''" 7]
  show ?thesis
    using orders_ok_one_order_book orders_one_order_book_1 n9 f
    by (simp add: first_order_fields)
qed

text \<open>
  Counterexample to C6 as stated: after \<^verbatim>\<open>modify_order(1, 20)\<close> order 1 rests with
  quantity 20 above its original quantity 10, and after \<^verbatim>\<open>modify_order(1, 0)\<close> it rests
  with quantity 0.
\<close>

theorem modify_order_counterexample:
  "reachable 256 modified_up_book
   \<and> map_option o_quantity (orders modified_up_book 1) = Some 20
   \<and> map_option o_original_quantity (orders modified_up_book 1) = Some 10
   \<and> \<not> (20 :: Quantity) \<le> 10
   \<and> reachable 256 modified_zero_book
   \<and> map_option o_quantity (orders modified_zero_book 1) = Some 0
   \<and> \<not> orders_ok modified_up_book \<and> \<not> orders_ok modified_zero_book"
proof -
  have r: "reachable 256 modified_up_book" "reachable 256 modified_zero_book"
    unfolding modified_up_book_def modified_zero_book_def
    by (intro r_modify reachable_one_order_book)+
  have u: "orders modified_up_book 1 = Some (first_order\<lparr>o_quantity := 20\<rparr>)"
    by (simp add: modified_up_book_def modify_order_def orders_one_order_book_1 Let_def)
  have z: "orders modified_zero_book 1 = Some (first_order\<lparr>o_quantity := 0\<rparr>)"
    by (simp add: modified_zero_book_def modify_order_def orders_one_order_book_1 Let_def)
  have nu: "\<not> orders_ok modified_up_book"
  proof
    assume "orders_ok modified_up_book"
    with u have "o_quantity (first_order\<lparr>o_quantity := 20\<rparr>)
        \<le> o_original_quantity (first_order\<lparr>o_quantity := 20\<rparr>)"
      unfolding orders_ok_def by blast
    then show False by (simp add: first_order_fields)
  qed
  have nz: "\<not> orders_ok modified_zero_book"
  proof
    assume "orders_ok modified_zero_book"
    with z have "o_quantity (first_order\<lparr>o_quantity := 0\<rparr>) \<noteq> 0"
      unfolding orders_ok_def by blast
    then show False by simp
  qed
  from r u z nu nz show ?thesis by (simp add: first_order_fields)
qed


lemma foldl_count_step_le: "foldl count_step n levels \<le> n + length levels"
proof (induction levels arbitrary: n)
  case Nil show ?case by simp
next
  case (Cons a levels)
  show ?case using Cons.IH [of "Suc n"] Cons.IH [of n] by (simp add: count_step_def)
qed

lemma foldl_count_step_filter:
  "foldl count_step n levels = n + length (filter (\<lambda>level. 0 < l_quantity level) levels)"
  by (induction levels arbitrary: n) (simp_all add: count_step_def)

text \<open>
  Claim C10: in a book constructed with \<open>c\<close> levels, \<^verbatim>\<open>price_to_index\<close> sends every price
  on either side to its unsigned cast modulo \<open>c\<close>. Two orders of one side whose prices
  have the same index, added one after the other, leave their slot with the price of the
  second and with both quantities added to what the slot held. \<^verbatim>\<open>depth()\<close> reports,
  for each side, the number of slots of the table with a positive quantity, which is at
  most \<open>c\<close> however many distinct prices are resting.
\<close>

theorem price_index_aliasing:
  assumes "reachable c b"
  shows "price_to_index b p s = unat p mod c
     \<and> (o_side o1 = o_side o2 \<and> unat (o_price o1) mod c = unat (o_price o2) mod c \<longrightarrow>
          (let b' = add_order (add_order b o1) o2; i = unat (o_price o2) mod c in
             (o_side o2 = BUY \<longrightarrow>
                bid_levels b' ! i = \<lparr>l_price = o_price o2,
                   l_quantity = l_quantity (bid_levels b ! i) + o_quantity o1 + o_quantity o2\<rparr>)
           \<and> (o_side o2 = SELL \<longrightarrow>
                ask_levels b' ! i = \<lparr>l_price = o_price o2,
                   l_quantity = l_quantity (ask_levels b ! i) + o_quantity o1 + o_quantity o2\<rparr>)))
     \<and> depth b = (length (filter (\<lambda>level. 0 < l_quantity level) (bid_levels b)),
                  length (filter (\<lambda>level. 0 < l_quantity level) (ask_levels b)))
     \<and> fst (depth b) \<le> c \<and> snd (depth b) \<le> c"
proof -
  from assms have sh: "0 < c" "length (bid_levels b) = c" "length (ask_levels b) = c"
    using reachable_shape by blast+
  have idx: "price_to_index b p s = unat p mod c"
    using sh by (simp add: price_to_index_def)
  have d: "fst (depth b) \<le> c \<and> snd (depth b) \<le> c"
    using foldl_count_step_le [of 0 "bid_levels b"] foldl_count_step_le [of 0 "ask_levels b"] sh
    by (simp add: depth_def)
  have cnt: "depth b = (length (filter (\<lambda>level. 0 < l_quantity level) (bid_levels b)),
                  length (filter (\<lambda>level. 0 < l_quantity level) (ask_levels b)))"
    by (simp add: depth_def foldl_count_step_filter)
  have two: "o_side o1 = o_side o2 \<and> unat (o_price o1) mod c = unat (o_price o2) mod c \<longrightarrow>
          (let b' = add_order (add_order b o1) o2; i = unat (o_price o2) mod c in
             (o_side o2 = BUY \<longrightarrow>
                bid_levels b' ! i = \<lparr>l_price = o_price o2,
                   l_quantity = l_quantity (bid_levels b ! i) + o_quantity o1 + o_quantity o2\<rparr>)
           \<and> (o_side o2 = SELL \<longrightarrow>
                ask_levels b' ! i = \<lparr>l_price = o_price o2,
                   l_quantity = l_quantity (ask_levels b ! i) + o_quantity o1 + o_quantity o2\<rparr>))"
    using sh
    by (cases "o_side o2")
       (simp_all add: add_order_def Let_def price_to_index_def nth_add_level_quantity
          nth_set_level_price)
  from idx d cnt two show ?thesis by blast
qed

lemma aliased_order_fields:
  "o_id aliased_order = 3" "o_price aliased_order = 10306" "o_quantity aliased_order = 15"
  "o_side aliased_order = BUY"
  by (simp_all add: aliased_order_def Order_new_def)

lemma reachable_aliased_book: "reachable 256 aliased_book"
  unfolding aliased_book_def by (intro r_add reachable_one_order_book)

lemma reachable_two_level_book: "reachable 256 two_level_book"
  unfolding two_level_book_def by (intro r_add reachable_one_order_book)

lemma depth_aliased_book: "depth aliased_book = (1, 0)"
  by code_simp

lemma depth_two_level_book: "depth two_level_book = (2, 0)"
  by code_simp

lemma depth_crossed_book: "depth crossed_book = (1, 1)"
  by code_simp

text \<open>
  Witness for C10: 10050 and 10306 both fall into slot 66 of 256; after the two adds the
  slot shows the price 10306 and the quantity 25, and \<^verbatim>\<open>depth()\<close> reports one bid level
  for the two resting prices. With bids at 10050 and 10051 it reports two, and one level on
  each side for the book with a buy and a sell.
\<close>

theorem price_index_aliasing_witness:
  "reachable 256 (OrderBook_new ''AAPL'' 256)
   \<and> price_to_index (OrderBook_new ''AAPL'' 256) 10306 BUY = 66
   \<and> o_side first_order = o_side aliased_order
   \<and> unat (o_price first_order) mod 256 = unat (o_price aliased_order) mod 256
   \<and> bid_levels (add_order (add_order (OrderBook_new ''AAPL'' 256) first_order) aliased_order) ! 66
       = \<lparr>l_price = 10306, l_quantity = 25\<rparr>
   \<and> fst (depth (OrderBook_new ''AAPL'' 256)) \<le> 256
   \<and> snd (depth (OrderBook_new ''AAPL'' 256)) \<le> 256
   \<and> reachable 256 aliased_book
   \<and> depth aliased_book = (1, 0)
   \<and> length (filter (\<lambda>level. 0 < l_quantity level) (bid_levels aliased_book)) = 1
   \<and> length (filter (\<lambda>level. 0 < l_quantity level) (ask_levels aliased_book)) = 0
   \<and> reachable 256 two_level_book
   \<and> depth two_level_book = (2, 0)
   \<and> length (filter (\<lambda>level. 0 < l_quantity level) (bid_levels two_level_book)) = 2
   \<and> reachable 256 crossed_book
   \<and> depth crossed_book = (1, 1)"
proof -
  have r: "reachable 256 (OrderBook_new ''AAPL'' 256)" by (rule r_new) simp
  have z: "l_quantity (bid_levels (OrderBook_new ''AAPL'' 256) ! 66) = 0"
    by (simp add: OrderBook_new_def OrderBookLevel_default_def)
  have a: "price_to_index (OrderBook_new ''AAPL'' 256) 10306 BUY = 66
   \<and> o_side first_order = o_side aliased_order
   \<and> unat (o_price first_order) mod 256 = unat (o_price aliased_order) mod 256
   \<and> bid_levels (add_order (add_order (OrderBook_new ''AAPL'' 256) first_order) aliased_order) ! 66
       = \<lparr>l_price = 10306, l_quantity = 25\<rparr>"
    using price_index_aliasing [OF r, of 10306 BUY first_order aliased_order] z
    by (simp add: Let_def first_order_fields aliased_order_fields)
  have d: "fst (depth (OrderBook_new ''AAPL'' 256)) \<le> 256
   \<and> snd (depth (OrderBook_new ''AAPL'' 256)) \<le> 256"
    using price_index_aliasing [OF r, of 0 BUY first_order first_order] by blast
  have b: "length (filter (\<lambda>level. 0 < l_quantity level) (bid_levels aliased_book)) = 1
      \<and> length (filter (\<lambda>level. 0 < l_quantity level) (ask_levels aliased_book)) = 0"
    using price_index_aliasing [OF reachable_aliased_book, of 0 BUY first_order first_order]
      depth_aliased_book
    by simp
  have c: "length (filter (\<lambda>level. 0 < l_quantity level) (bid_levels two_level_book)) = 2"
    using price_index_aliasing [OF reachable_two_level_book, of 0 BUY first_order first_order]
      depth_two_level_book
    by simp
  from a b c d r reachable_aliased_book reachable_two_level_book reachable_crossed_book
    depth_aliased_book depth_two_level_book depth_crossed_book
  show ?thesis by simp
qed

section \<open>Properties of the parser\<close>


lemma sizeof_MarketDataMessage_31: "sizeof_MarketDataMessage = 31"
  by (simp add: sizeof_MarketDataMessage_def sizeof_AddOrderData_def sizeof_ModifyOrderData_def
      sizeof_CancelOrderData_def sizeof_ExecuteOrderData_def sizeof_TradeData_def)

text \<open>
  Claim C3, as the code has it: at offset \<open>k\<close> of a buffer of which \<^verbatim>\<open>max_length\<close> bytes
  may be read, the parser yields nothing when fewer than 31 bytes remain, 31 being
  \<^verbatim>\<open>sizeof(MarketDataMessage)\<close>: the 10-byte header and the 21-byte union. Otherwise the
  message is framed as \<open>total = 31 + symbol_length\<close> whatever its type; the parser yields
  nothing when fewer than \<open>total\<close> bytes remain, and otherwise yields the 31 bytes of the
  struct at \<open>k\<close> with the \<^verbatim>\<open>symbol_length\<close> bytes that start at \<open>k + 31\<close>, and advances
  the offset by exactly \<open>total\<close>.
\<close>

theorem parse_message_framing:
  assumes "max_length \<le> length data"
  shows "(max_length < k + 31 \<longrightarrow> parse_message data k max_length = None)
     \<and> (k + 31 \<le> max_length \<longrightarrow>
          (let n_symbol = unat (data ! (k + 9)); total = 31 + n_symbol in
             (max_length < k + total \<longrightarrow> parse_message data k max_length = None)
           \<and> (k + total \<le> max_length \<longrightarrow>
                (\<exists>msg symb. parse_message data k max_length = Some (msg, symb, k + total)
                   \<and> length msg = 31 \<and> (\<forall>i<31. msg ! i = data ! (k + i))
                   \<and> length symb = n_symbol
                   \<and> (\<forall>i<n_symbol. symb ! i = data ! (k + 31 + i))))))"
proof -
  have a: "max_length < k + 31 \<longrightarrow> parse_message data k max_length = None"
    by (simp add: parse_message_def sizeof_MarketDataMessage_31)
  have b: "k + 31 \<le> max_length \<longrightarrow>
          (let n_symbol = unat (data ! (k + 9)); total = 31 + n_symbol in
             (max_length < k + total \<longrightarrow> parse_message data k max_length = None)
           \<and> (k + total \<le> max_length \<longrightarrow>
                (\<exists>msg symb. parse_message data k max_length = Some (msg, symb, k + total)
                   \<and> length msg = 31 \<and> (\<forall>i<31. msg ! i = data ! (k + i))
                   \<and> length symb = n_symbol
                   \<and> (\<forall>i<n_symbol. symb ! i = data ! (k + 31 + i)))))"
    using assms
    by (simp add: parse_message_def sizeof_MarketDataMessage_31 offsetof_symbol_length_def
        Let_def add.assoc)
  from a b show ?thesis by blast
qed

lemma add_message_length: "length add_message = 36"
  by (simp add: add_message_def)

lemma add_message_9: "add_message ! 9 = 4"
  by (simp add: add_message_def nth_append)

text \<open>
  Witness for C3 on an AddOrder struct followed by \<^verbatim>\<open>AAPL\<close>: nothing at 30 or 34 readable
  bytes, the message and its symbol at 36, with the offset moved to 35.
\<close>

theorem parse_message_framing_witness:
  "(30::nat) \<le> length add_message \<and> (30::nat) < 0 + 31
   \<and> parse_message add_message 0 30 = None
   \<and> (34::nat) \<le> length add_message \<and> 0 + 31 \<le> (34::nat)
   \<and> (34::nat) < 0 + (31 + unat (add_message ! (0 + 9)))
   \<and> parse_message add_message 0 34 = None
   \<and> length add_message \<le> length add_message
   \<and> 0 + (31 + unat (add_message ! (0 + 9))) \<le> length add_message
   \<and> (\<exists>msg symb. parse_message add_message 0 (length add_message) = Some (msg, symb, 35)
         \<and> length msg = 31 \<and> length symb = 4)
   \<and> parse_message add_message 0 (length add_message)
        = Some (replicate 8 0 @ [1, 4] @ replicate 21 0, [65, 65, 80, 76], 35)"
proof -
  have l: "length add_message = 36" by (rule add_message_length)
  have n: "unat (add_message ! (0 + 9)) = 4" by (simp add: add_message_9)
  have m30: "(30::nat) \<le> length add_message" and m34: "(34::nat) \<le> length add_message"
    by (simp_all add: l)
  have a: "parse_message add_message 0 30 = None"
    using parse_message_framing [OF m30, of 0] by simp
  have b: "parse_message add_message 0 34 = None"
    using parse_message_framing [OF m34, of 0] n by (simp add: Let_def)
  have c: "\<exists>msg symb. parse_message add_message 0 (length add_message) = Some (msg, symb, 35)
         \<and> length msg = 31 \<and> length symb = 4"
    using parse_message_framing [of "length add_message" add_message 0] n l
    by (simp add: Let_def) blast
  have d: "parse_message add_message 0 (length add_message)
        = Some (replicate 8 0 @ [1, 4] @ replicate 21 0, [65, 65, 80, 76], 35)"
    by (simp add: parse_message_def sizeof_MarketDataMessage_31 offsetof_symbol_length_def
        Let_def add_message_def nth_append)
  from a b c d l n show ?thesis by simp
qed

text \<open>
  Counterexample to C3 as stated: an 18-byte buffer holding a CancelOrder message in the
  specification's framing (10 + 8 + 0 bytes) has at least 10 bytes and exactly the stated
  total at offset 0, yet the parser yields no message.
\<close>

theorem cancel_message_counterexample:
  "length cancel_message = 18
   \<and> 10 \<le> length cancel_message - 0
   \<and> 10 + spec_payload_size (cancel_message ! 8) + unat (cancel_message ! 9) = 18
   \<and> parse_message cancel_message 0 (length cancel_message) = None"
  by (simp add: cancel_message_def spec_payload_size_def nth_append parse_message_def
      sizeof_MarketDataMessage_31)

lemma parse_heartbeat_0:
  "parse_message two_heartbeats 0 62 = Some (heartbeat_message, [], 31)"
  by (simp add: parse_message_def sizeof_MarketDataMessage_31 offsetof_symbol_length_def
      Let_def two_heartbeats_def heartbeat_message_def nth_append)

lemma parse_heartbeat_31:
  "parse_message two_heartbeats 31 62 = Some (heartbeat_message, [], 62)"
  by (simp add: parse_message_def sizeof_MarketDataMessage_31 offsetof_symbol_length_def
      Let_def two_heartbeats_def heartbeat_message_def nth_append)

text \<open>
  Claim C4 fails on the code: on a 62-byte buffer holding two complete 31-byte messages,
  \<^verbatim>\<open>process_buffer\<close> hands both messages over, so that 62 bytes are consumed, and returns
  \<open>31 + 62 = 93\<close>.
\<close>

theorem process_buffer_overcounts:
  "length two_heartbeats = 62
   \<and> snd (process_buffer two_heartbeats 62) = [(heartbeat_message, []), (heartbeat_message, [])]
   \<and> length heartbeat_message + length heartbeat_message = 62
   \<and> fst (process_buffer two_heartbeats 62) = 93"
proof -
  have "process_loop two_heartbeats 62 0 0 []
        = process_loop two_heartbeats 62 31 31 [(heartbeat_message, [])]"
    by (subst process_loop.simps) (simp add: parse_heartbeat_0)
  also have "\<dots> = process_loop two_heartbeats 62 62 93
        [(heartbeat_message, []), (heartbeat_message, [])]"
    by (subst process_loop.simps) (simp add: parse_heartbeat_31)
  also have "\<dots> = (93, [(heartbeat_message, []), (heartbeat_message, [])])"
    by (subst process_loop.simps) simp
  finally have "process_buffer two_heartbeats 62
        = (93, [(heartbeat_message, []), (heartbeat_message, [])])"
    by (simp add: process_buffer_def)
  then show ?thesis by (simp add: two_heartbeats_def heartbeat_message_def)
qed

section \<open>Properties of the timekeeper\<close>

lemma three_samples_eq:
  "three_samples = \<lparr>samples = [30, 10, 20], max_samples = 1000000, sorted_flag = False\<rparr>"
  by (simp add: three_samples_def end_measure_def Timekeeper_new_def)

lemma double_round_0: "double_round 0 = 0"
  by (simp add: double_round_def)

lemma percentile_index_0: "percentile_index 3 0 = Inr 2"
  by (simp add: percentile_index_def double_round_0)

text \<open>
  Claim C9 fails on the code at \<open>p = 0\<close>: with the samples 30, 10, 20 the rank
  \<open>\<lceil>0 \<cdot> 3\<rceil> - 1\<close> clamped to \<open>[0, 2]\<close> is 0 and the sample of that rank is the minimum, 10;
  \<^verbatim>\<open>percentile(0)\<close> sorts the samples and returns the maximum, 30.
\<close>

theorem percentile_zero_returns_max:
  "samples three_samples = [30, 10, 20]
   \<and> sort (samples three_samples) ! 0 = 10
   \<and> Min (set (samples three_samples)) = 10
   \<and> Max (set (samples three_samples)) = 30
   \<and> percentile three_samples 0
       = Inr (30, \<lparr>samples = [10, 20, 30], max_samples = 1000000, sorted_flag = True\<rparr>)"
proof -
  have s: "samples three_samples = [30, 10, 20]" by (simp add: three_samples_eq)
  have sorted_copy: "sort_samples three_samples
      = \<lparr>samples = [10, 20, 30], max_samples = 1000000, sorted_flag = True\<rparr>"
    by (simp add: three_samples_eq sort_samples_def)
  have prod: "double_round (0 * double_round (real (3::nat))) = 0"
    by (simp add: double_round_0)
  have idx0: "(word_of_int \<lceil>0::real\<rceil> :: 64 word) - 1 = 18446744073709551615"
    by simp
  have idx: "min (18446744073709551615 :: 64 word) (word_of_nat 3 - 1) = 2"
    by simp
  have i: "percentile_index 3 0 = Inr 2"
    using prod idx0 idx by (simp add: percentile_index_def)
  have i': "percentile_index (Suc (Suc (Suc 0))) 0 = Inr 2"
    using i by (simp add: numeral_3_eq_3)
  have "percentile three_samples 0
      = Inr ([10, 20, 30 :: 64 word] ! unat (2 :: 64 word),
             \<lparr>samples = [10, 20, 30], max_samples = 1000000, sorted_flag = True\<rparr>)"
    using s sorted_copy i' by (simp add: percentile_def Let_def)
  then have p: "percentile three_samples 0
       = Inr (30, \<lparr>samples = [10, 20, 30], max_samples = 1000000, sorted_flag = True\<rparr>)"
    by simp
  from s p show ?thesis by simp
qed

text \<open>
  The rounding of the product shows at other arguments: for 100 samples and the double
  nearest to 0.07 the product is \<open>7 + 2^-50\<close>, its ceiling 8 and the index 7, where the
  exact product 7 gives the index 6.
\<close>

lemma round_half_even_of_int: "round_half_even (of_int n) = n"
  unfolding round_half_even_def Let_def by simp

lemma round_half_even_example: "round_half_even (31525197391593475 / 4) = 7881299347898369"
  unfolding round_half_even_def Let_def by simp

lemma floor_log2_eq:
  fixes x :: real
  assumes "2 ^ k \<le> x" and "x < 2 ^ Suc k"
  shows "\<lfloor>log 2 x\<rfloor> = int k"
proof -
  have "(0::real) < 2 ^ k" by simp
  with assms(1) have pos: "0 < x" by linarith
  have "real k \<le> log 2 x" using assms(1) pos by (simp add: le_log_iff powr_realpow)
  moreover have "x < 2 powr (real k + 1)"
    using assms(2) by (simp add: powr_add powr_realpow)
  then have "log 2 x < real k + 1"
    using pos by (simp only: log_less_iff [of 2 x "real k + 1"])
  ultimately show ?thesis by (simp add: floor_eq_iff)
qed

lemma ulp_binade:
  assumes "k \<le> 52"
  shows "(2::real) powr (real_of_int (max (int k) (- 1022)) - 52) = 1 / 2 ^ (52 - k)"
proof -
  have m: "max (int k) (- 1022) = int k" by simp
  have d: "real_of_int (int k) - 52 = - real (52 - k)" using assms by simp
  have "(2::real) powr (- real (52 - k)) = 1 / 2 ^ (52 - k)"
    by (simp add: powr_minus_divide powr_realpow)
  then show ?thesis by (simp only: m d)
qed

lemma double_round_binade:
  fixes x :: real
  assumes "2 ^ k \<le> x" and "x < 2 ^ Suc k" and "k \<le> 52"
  shows "double_round x = of_int (round_half_even (x * 2 ^ (52 - k))) / 2 ^ (52 - k)"
proof -
  have "(0::real) < 2 ^ k" by simp
  with assms(1) have pos: "0 < x" by linarith
  then have ax: "\<bar>x\<bar> = x" and nz: "x \<noteq> 0" by simp_all
  have e: "\<lfloor>log 2 x\<rfloor> = int k" by (rule floor_log2_eq [OF assms(1,2)])
  have "double_round x
      = of_int (round_half_even (x / 2 powr (real_of_int (max \<lfloor>log 2 \<bar>x\<bar>\<rfloor> (- 1022)) - 52)))
        * 2 powr (real_of_int (max \<lfloor>log 2 \<bar>x\<bar>\<rfloor> (- 1022)) - 52)"
    by (simp only: double_round_def Let_def nz if_False)
  also have "\<dots> = of_int (round_half_even (x / (1 / 2 ^ (52 - k)))) * (1 / 2 ^ (52 - k))"
    by (simp only: ax e ulp_binade [OF assms(3)])
  also have "\<dots> = of_int (round_half_even (x * 2 ^ (52 - k))) / 2 ^ (52 - k)"
    by simp
  finally show ?thesis .
qed

lemma double_round_100: "double_round 100 = 100"
proof -
  have "double_round 100
      = of_int (round_half_even (100 * 2 ^ (52 - 6))) / 2 ^ (52 - 6)"
    by (rule double_round_binade) simp_all
  also have "(100 * 2 ^ (52 - 6) :: real) = of_int 7036874417766400" by simp
  also have "round_half_even (of_int 7036874417766400) = 7036874417766400"
    by (rule round_half_even_of_int)
  finally show ?thesis by simp
qed

lemma double_round_product: "double_round (double_0_07 * 100) = 7881299347898369 / 2 ^ 50"
proof -
  have v: "double_0_07 * 100 = 31525197391593475 / 2 ^ 52"
    by (simp add: double_0_07_def)
  have "double_round (31525197391593475 / 2 ^ 52)
      = of_int (round_half_even (31525197391593475 / 2 ^ 52 * 2 ^ (52 - 2))) / 2 ^ (52 - 2)"
    by (rule double_round_binade) simp_all
  also have "(31525197391593475 / 2 ^ 52 * 2 ^ (52 - 2) :: real) = 31525197391593475 / 4"
    by simp
  also have "round_half_even (31525197391593475 / 4) = 7881299347898369" by (rule round_half_even_example)
  finally show ?thesis by (simp add: v)
qed

lemma percentile_index_0_07: "percentile_index 100 double_0_07 = Inr 7"
proof -
  have c: "\<lceil>7881299347898369 / 2 ^ 50 :: real\<rceil> = 8"
    by (simp add: ceiling_eq_iff)
  have "double_round (real (100::nat)) = 100" using double_round_100 by simp
  then have "\<lceil>double_round (double_0_07 * double_round (real (100::nat)))\<rceil> = 8"
    by (simp only: double_round_product c)
  then show ?thesis
    by (simp add: percentile_index_def Let_def)
qed

section \<open>Properties of the execution engine\<close>


lemma push_slot_fields [simp]:
  "free_list (push_slot block pool i) \<noteq> None"
  "sizeof_T (push_slot block pool i) = sizeof_T pool"
  by (simp_all add: push_slot_def Let_def)

lemma foldl_push_slot_free_list:
  "0 < n \<Longrightarrow> free_list (foldl (push_slot block) pool [0..<n]) \<noteq> None"
  by (cases n) simp_all

lemma allocate_block_free_list:
  assumes "0 < num_slots pool"
  shows "free_list (allocate_block pool) \<noteq> None"
proof -
  let ?pool2 = "(snd (malloc pool BlockSize))
      \<lparr>block_next := (block_next (snd (malloc pool BlockSize)))
           (fst (malloc pool BlockSize) := next_block (snd (malloc pool BlockSize))),
       next_block := Some (fst (malloc pool BlockSize))\<rparr>"
  have "num_slots ?pool2 = num_slots pool"
    by (simp add: num_slots_def slot_size_def malloc_def)
  with assms have "0 < num_slots ?pool2" by simp
  then have "free_list (foldl (push_slot (fst (malloc pool BlockSize))) ?pool2
      [0..<num_slots ?pool2]) \<noteq> None"
    by (rule foldl_push_slot_free_list)
  then show ?thesis by (simp add: allocate_block_def Let_def split_beta)
qed

lemma allocate_returns_null:
  assumes "0 < num_slots pool"
  shows "fst (allocate pool) = None"
proof (cases "free_list pool")
  case (Some slot)
  then show ?thesis by (simp add: allocate_def exchange_def)
next
  case None
  have "num_slots (pool\<lparr>free_list := None\<rparr>) = num_slots pool"
    by (simp add: num_slots_def slot_size_def)
  with assms have "free_list (allocate_block (pool\<lparr>free_list := None\<rparr>)) \<noteq> None"
    by (simp add: allocate_block_free_list)
  then obtain slot where "free_list (allocate_block (pool\<lparr>free_list := None\<rparr>)) = Some slot"
    by auto
  with None show ?thesis by (simp add: allocate_def exchange_def Let_def)
qed

lemma pool_get_never_returns:
  assumes "0 < num_slots pool"
  shows "pool_get pool = Inl NullPointerWrite"
  using allocate_returns_null [OF assms]
  by (cases "allocate pool") (simp add: pool_get_def)

text \<open>
  With room for at least one slot in a block, which is so for every \<^verbatim>\<open>sizeof(T)\<close> up to
  4088, \<^verbatim>\<open>allocate()\<close> returns the null pointer on every pool, and \<^verbatim>\<open>submit_order\<close> stops
  at the report it takes from the pool, before it inserts the order.
\<close>

lemma submit_order_never_returns:
  assumes "0 < num_slots (report_pool eng)"
  shows "submit_order eng signal now = Inl NullPointerWrite"
  using pool_get_never_returns [OF assms] by (simp add: submit_order_def Let_def)

lemma num_slots_allocate_block: "num_slots (allocate_block pool) = num_slots pool"
proof -
  have "sizeof_T (foldl (push_slot block) p xs) = sizeof_T p" for block p xs
    by (induction xs arbitrary: p) simp_all
  then show ?thesis
    by (simp add: allocate_block_def Let_def split_beta num_slots_def slot_size_def malloc_def)
qed

lemma num_slots_new_engine: "num_slots (report_pool new_engine) = 56"
  by (simp add: new_engine_def ExecutionEngine_new_def MemoryPool_new_def
      num_slots_allocate_block)
     (simp add: num_slots_def slot_size_def BlockSize_def sizeof_pointer_def)

lemma submit_order_new_engine: "submit_order new_engine buy_signal 0 = Inl NullPointerWrite"
  by (rule submit_order_never_returns) (simp add: num_slots_new_engine)

lemma engine_cancel_order_unknown:
  assumes "\<not> mutex_locked eng" and "pending_orders eng order_id = None"
  shows "engine_cancel_order eng order_id now = Inr (False, eng)"
  using assms by (simp add: engine_cancel_order_def lock_mutex_def unlock_mutex_def)




section \<open>Properties of the queue\<close>


lemma mod_distinct_nat:
  fixes i W C :: nat
  assumes "i < W" and "W - i < C"
  shows "i mod C \<noteq> W mod C"
proof
  assume "i mod C = W mod C"
  then have "W mod C = i mod C" by simp
  with assms(1) have "C dvd W - i" by (simp add: mod_eq_dvd_iff_nat)
  moreover from assms(1) have "0 < W - i" by simp
  ultimately have "C \<le> W - i" by (rule dvd_imp_le)
  with assms(2) show False by simp
qed

lemma unat_of_nat_64: "n < 2 ^ 64 \<Longrightarrow> unat (of_nat n :: 64 word) = n"
  by (simp add: unat_of_nat)

lemma unat_sub_of_nat_64:
  assumes "R \<le> W" and "W < 2 ^ 64"
  shows "unat ((of_nat W :: 64 word) - of_nat R) = W - R"
proof -
  have "(of_nat W :: 64 word) - of_nat R = of_nat (W - R)" using assms(1) by simp
  moreover have "W - R < 2 ^ 64" using assms by simp
  ultimately show ?thesis by (simp add: unat_of_nat_64)
qed

lemma queue_inv_new:
  "length storage = unat Capacity \<Longrightarrow> queue_inv Capacity (LockFreeQueue_new storage, [], [])"
  by (simp add: queue_inv_def LockFreeQueue_new_def)

lemma queue_inv_push_fail:
  "queue_inv Capacity (q, pushed, popped) \<Longrightarrow> try_push Capacity q v = (False, q') \<Longrightarrow>
   queue_inv Capacity (q', pushed, popped)"
  by (auto simp: try_push_def split: if_splits)

lemma queue_inv_pop_fail:
  "queue_inv Capacity (q, pushed, popped) \<Longrightarrow> try_pop Capacity q = (None, q') \<Longrightarrow>
   queue_inv Capacity (q', pushed, popped)"
  by (auto simp: try_pop_def split: if_splits)

lemma queue_inv_push_ok:
  assumes inv: "queue_inv Capacity (q, pushed, popped)"
    and push: "try_push Capacity q v = (True, q')"
  shows "queue_inv Capacity (q', pushed @ [v], popped)"
proof -
  let ?C = "unat Capacity" and ?R = "length popped" and ?W = "length pushed"
  from push have room: "\<not> Capacity \<le> write_pos q - read_pos q"
    and q': "q' = q\<lparr>buffer := (buffer q)[unat (write_pos q) mod ?C := v],
                     write_pos := write_pos q + 1\<rparr>"
    by (auto simp: try_push_def split: if_splits)
  from inv have len: "length (buffer q) = ?C" and le: "?R \<le> ?W"
    and pre: "popped = take ?R pushed"
    by (simp_all add: queue_inv_def)
  have pre': "popped = take ?R (pushed @ [v])" using pre le by simp
  from inv consider
    (normal) "?W < 2 ^ 64" "read_pos q = of_nat ?R" "write_pos q = of_nat ?W"
      "?W - ?R \<le> ?C" "\<forall>i. ?R \<le> i \<and> i < ?W \<longrightarrow> buffer q ! (i mod ?C) = pushed ! i"
    | (wedged) "write_pos q < read_pos q"
    by (auto simp: queue_inv_def)
  then show ?thesis
  proof cases
    case wedged
    have "write_pos q + 1 \<noteq> read_pos q"
    proof
      assume "write_pos q + 1 = read_pos q"
      then have "write_pos q - read_pos q = - 1" by (simp add: algebra_simps)
      with room show False by simp
    qed
    moreover from wedged have "write_pos q + 1 \<le> read_pos q" by (rule inc_le)
    ultimately have "write_pos q + 1 < read_pos q" by simp
    with len le pre' show ?thesis by (simp add: queue_inv_def q')
  next
    case normal
    have d: "unat (write_pos q - read_pos q) = ?W - ?R"
      using normal(1,2,3) le by (simp add: unat_sub_of_nat_64)
    from room have "unat (write_pos q - read_pos q) < ?C" by (simp add: word_le_nat_alt)
    with d have lt: "?W - ?R < ?C" by simp
    then have Cpos: "0 < ?C" by simp
    have uw: "unat (write_pos q) = ?W" using normal(1,3) by (simp add: unat_of_nat_64)
    show ?thesis
    proof (cases "Suc ?W < 2 ^ 64")
      case True
      have wp: "write_pos q + 1 = of_nat (Suc ?W)" using normal(3) by simp
      have slots: "\<forall>i. ?R \<le> i \<and> i < Suc ?W \<longrightarrow>
          (buffer q)[?W mod ?C := v] ! (i mod ?C) = (pushed @ [v]) ! i"
      proof (intro allI impI)
        fix i assume i: "?R \<le> i \<and> i < Suc ?W"
        show "(buffer q)[?W mod ?C := v] ! (i mod ?C) = (pushed @ [v]) ! i"
        proof (cases "i = ?W")
          case True
          with len Cpos show ?thesis by simp
        next
          case False
          with i have iW: "i < ?W" by simp
          with i lt have "?W - i < ?C" by simp
          with iW have "i mod ?C \<noteq> ?W mod ?C" by (rule mod_distinct_nat)
          then have "(buffer q)[?W mod ?C := v] ! (i mod ?C) = buffer q ! (i mod ?C)" by simp
          also have "\<dots> = pushed ! i" using normal(5) i iW by simp
          finally show ?thesis using iW by (simp add: nth_append)
        qed
      qed
      from lt have "Suc ?W - ?R \<le> ?C" using le by simp
      with True len le pre' normal(2) wp slots uw show ?thesis
        by (simp add: queue_inv_def q')
    next
      case False
      with normal(1) have W: "Suc ?W = 2 ^ 64" by simp
      have "(of_nat (Suc ?W) :: 64 word) = of_nat (2 ^ 64)" by (simp only: W)
      also have "\<dots> = 0" by simp
      finally have "write_pos q + 1 = 0" using normal(3) by (simp add: add.commute)
      moreover have "read_pos q \<noteq> 0"
      proof
        assume "read_pos q = 0"
        with normal(2) have "unat (of_nat ?R :: 64 word) = 0" by simp
        moreover have "?R < 2 ^ 64" using le normal(1) by simp
        ultimately have "?R = 0" by (simp add: unat_of_nat_64)
        with lt W have "2 ^ 64 - 1 < ?C" by simp
        moreover have "?C < 2 ^ 64" using unsigned_less [of Capacity] by simp
        ultimately show False by simp
      qed
      ultimately have "write_pos q + 1 < read_pos q" by (simp add: word_neq_0_conv)
      with len le pre' show ?thesis by (simp add: queue_inv_def q')
    qed
  qed
qed


lemma queue_inv_pop_ok:
  assumes inv: "queue_inv Capacity (q, pushed, popped)"
    and pop: "try_pop Capacity q = (Some x, q')"
  shows "queue_inv Capacity (q', pushed, popped @ [x]) \<and> length popped < length pushed
         \<and> x = pushed ! length popped"
proof -
  let ?C = "unat Capacity" and ?R = "length popped" and ?W = "length pushed"
  from pop have some: "\<not> write_pos q \<le> read_pos q"
    and x: "x = buffer q ! (unat (read_pos q) mod ?C)"
    and q': "q' = q\<lparr>read_pos := read_pos q + 1\<rparr>"
    by (auto simp: try_pop_def split: if_splits)
  from inv have len: "length (buffer q) = ?C" and le: "?R \<le> ?W"
    and pre: "popped = take ?R pushed"
    by (simp_all add: queue_inv_def)
  from some have "\<not> write_pos q < read_pos q" by simp
  with inv have normal: "?W < 2 ^ 64" "read_pos q = of_nat ?R" "write_pos q = of_nat ?W"
      "?W - ?R \<le> ?C" "\<forall>i. ?R \<le> i \<and> i < ?W \<longrightarrow> buffer q ! (i mod ?C) = pushed ! i"
    by (auto simp: queue_inv_def)
  have R64: "?R < 2 ^ 64" using le normal(1) by simp
  have ur: "unat (read_pos q) = ?R" using normal(2) R64 by (simp add: unat_of_nat_64)
  have uw: "unat (write_pos q) = ?W" using normal(1,3) by (simp add: unat_of_nat_64)
  from some have "unat (read_pos q) < unat (write_pos q)" by (simp add: word_le_nat_alt)
  with ur uw have lt: "?R < ?W" by simp
  with normal(5) x ur have xv: "x = pushed ! ?R" by simp
  have "take (Suc ?R) pushed = take ?R pushed @ [pushed ! ?R]"
    using lt by (simp add: take_Suc_conv_app_nth)
  with pre xv have pre': "popped @ [x] = take (Suc ?R) pushed" by simp
  have rp: "read_pos q + 1 = of_nat (Suc ?R)" using normal(2) by simp
  have cap: "?W - Suc ?R \<le> ?C" using normal(4) by simp
  have slots: "\<forall>i. Suc ?R \<le> i \<and> i < ?W \<longrightarrow> buffer q ! (i mod ?C) = pushed ! i"
    using normal(5) by simp
  have "queue_inv Capacity (q', pushed, popped @ [x])"
    using len lt pre' normal(1,3) rp cap slots by (simp add: queue_inv_def q')
  with lt xv show ?thesis by simp
qed

lemma run_ops_inv:
  "queue_inv Capacity st \<Longrightarrow> queue_inv Capacity (run_ops Capacity ops st)"
proof (induction ops arbitrary: st)
  case Nil then show ?case by simp
next
  case (Cons op ops)
  obtain q pushed popped where st: "st = (q, pushed, popped)" by (cases st) auto
  show ?case
  proof (cases op)
    case (Push v)
    obtain ok q' where r: "try_push Capacity q v = (ok, q')" by (cases "try_push Capacity q v")
    show ?thesis
    proof (cases ok)
      case True
      with r Cons.prems st have "queue_inv Capacity (q', pushed @ [v], popped)"
        by (auto intro: queue_inv_push_ok)
      then have "queue_inv Capacity (run_ops Capacity ops (q', pushed @ [v], popped))"
        by (rule Cons.IH)
      with r True st Push show ?thesis by simp
    next
      case False
      with r Cons.prems st have "queue_inv Capacity (q', pushed, popped)"
        by (auto intro: queue_inv_push_fail)
      then have "queue_inv Capacity (run_ops Capacity ops (q', pushed, popped))"
        by (rule Cons.IH)
      with r False st Push show ?thesis by simp
    qed
  next
    case Pop
    obtain res q' where r: "try_pop Capacity q = (res, q')" by (cases "try_pop Capacity q")
    show ?thesis
    proof (cases res)
      case None
      with r Cons.prems st have "queue_inv Capacity (q', pushed, popped)"
        by (auto intro: queue_inv_pop_fail)
      then have "queue_inv Capacity (run_ops Capacity ops (q', pushed, popped))"
        by (rule Cons.IH)
      with r None st Pop show ?thesis by simp
    next
      case (Some x)
      from Cons.prems st have "queue_inv Capacity (q, pushed, popped)" by simp
      moreover from r Some have "try_pop Capacity q = (Some x, q')" by simp
      ultimately have "queue_inv Capacity (q', pushed, popped @ [x])"
        by (rule queue_inv_pop_ok [THEN conjunct1])
      then have "queue_inv Capacity (run_ops Capacity ops (q', pushed, popped @ [x]))"
        by (rule Cons.IH)
      with r Some st Pop show ?thesis by simp
    qed
  qed
qed

text \<open>
  Claim C8, for the queue used by one thread at a time. \<^verbatim>\<open>try_push\<close> fails exactly when
  \<^verbatim>\<open>write_pos - read_pos >= Capacity\<close> and then changes nothing; otherwise it stores the
  value in slot \<^verbatim>\<open>write_pos % Capacity\<close> and increments \<^verbatim>\<open>write_pos\<close>. \<^verbatim>\<open>try_pop\<close> fails
  exactly when \<^verbatim>\<open>read_pos >= write_pos\<close> and then changes nothing; otherwise it returns the
  value of slot \<^verbatim>\<open>read_pos % Capacity\<close> and increments \<^verbatim>\<open>read_pos\<close>. In every run of pushes
  and pops from a new queue the popped values are, in order, the first of the values
  pushed with success, so that with as many pops as pushes the two sequences are equal;
  and a pop that succeeds after the run returns the oldest value not yet popped.
\<close>

theorem spsc_queue_fifo:
  assumes "length storage = unat Capacity"
  shows "(fst (try_push Capacity q v) = False \<longleftrightarrow> Capacity \<le> write_pos q - read_pos q)
     \<and> (fst (try_push Capacity q v) = False \<longrightarrow> snd (try_push Capacity q v) = q)
     \<and> (fst (try_push Capacity q v) = True \<and> length (buffer q) = unat Capacity \<longrightarrow>
          write_pos (snd (try_push Capacity q v)) = write_pos q + 1
          \<and> read_pos (snd (try_push Capacity q v)) = read_pos q
          \<and> buffer (snd (try_push Capacity q v)) ! (unat (write_pos q) mod unat Capacity) = v)
     \<and> (fst (try_pop Capacity q) = None \<longleftrightarrow> write_pos q \<le> read_pos q)
     \<and> (fst (try_pop Capacity q) = None \<longrightarrow> snd (try_pop Capacity q) = q)
     \<and> (fst (try_pop Capacity q) \<noteq> None \<longrightarrow>
          fst (try_pop Capacity q) = Some (buffer q ! (unat (read_pos q) mod unat Capacity))
          \<and> read_pos (snd (try_pop Capacity q)) = read_pos q + 1
          \<and> write_pos (snd (try_pop Capacity q)) = write_pos q
          \<and> buffer (snd (try_pop Capacity q)) = buffer q)
     \<and> (\<forall>ops q' pushed popped.
          run_ops Capacity ops (LockFreeQueue_new storage, [], []) = (q', pushed, popped) \<longrightarrow>
            popped = take (length popped) pushed
            \<and> (length popped = length pushed \<longrightarrow> popped = pushed)
            \<and> (\<forall>x. fst (try_pop Capacity q') = Some x \<longrightarrow>
                  length popped < length pushed \<and> x = pushed ! length popped))"
proof -
  have push1: "fst (try_push Capacity q v) = False \<longleftrightarrow> Capacity \<le> write_pos q - read_pos q"
    by (simp add: try_push_def)
  have push2: "fst (try_push Capacity q v) = False \<longrightarrow> snd (try_push Capacity q v) = q"
    by (simp add: try_push_def)
  have push3: "fst (try_push Capacity q v) = True \<and> length (buffer q) = unat Capacity \<longrightarrow>
          write_pos (snd (try_push Capacity q v)) = write_pos q + 1
          \<and> read_pos (snd (try_push Capacity q v)) = read_pos q
          \<and> buffer (snd (try_push Capacity q v)) ! (unat (write_pos q) mod unat Capacity) = v"
  proof (intro impI)
    assume a: "fst (try_push Capacity q v) = True \<and> length (buffer q) = unat Capacity"
    then have "\<not> Capacity \<le> write_pos q - read_pos q" by (simp add: try_push_def split: if_splits)
    then have "Capacity \<noteq> 0" by auto
    then have "0 < unat Capacity" by (simp add: unat_gt_0)
    with a show "write_pos (snd (try_push Capacity q v)) = write_pos q + 1
          \<and> read_pos (snd (try_push Capacity q v)) = read_pos q
          \<and> buffer (snd (try_push Capacity q v)) ! (unat (write_pos q) mod unat Capacity) = v"
      by (simp add: try_push_def split: if_splits)
  qed
  have pop1: "fst (try_pop Capacity q) = None \<longleftrightarrow> write_pos q \<le> read_pos q"
    by (simp add: try_pop_def)
  have pop2: "fst (try_pop Capacity q) = None \<longrightarrow> snd (try_pop Capacity q) = q"
    by (simp add: try_pop_def)
  have pop3: "fst (try_pop Capacity q) \<noteq> None \<longrightarrow>
          fst (try_pop Capacity q) = Some (buffer q ! (unat (read_pos q) mod unat Capacity))
          \<and> read_pos (snd (try_pop Capacity q)) = read_pos q + 1
          \<and> write_pos (snd (try_pop Capacity q)) = write_pos q
          \<and> buffer (snd (try_pop Capacity q)) = buffer q"
    by (simp add: try_pop_def)
  have fifo: "\<forall>ops q' pushed popped.
          run_ops Capacity ops (LockFreeQueue_new storage, [], []) = (q', pushed, popped) \<longrightarrow>
            popped = take (length popped) pushed
            \<and> (length popped = length pushed \<longrightarrow> popped = pushed)
            \<and> (\<forall>x. fst (try_pop Capacity q') = Some x \<longrightarrow>
                  length popped < length pushed \<and> x = pushed ! length popped)"
  proof (intro allI impI)
    fix ops q' pushed popped
    assume r: "run_ops Capacity ops (LockFreeQueue_new storage, [], []) = (q', pushed, popped)"
    have "queue_inv Capacity (run_ops Capacity ops (LockFreeQueue_new storage, [], []))"
      using assms by (intro run_ops_inv queue_inv_new)
    with r have inv: "queue_inv Capacity (q', pushed, popped)" by simp
    then have pre: "popped = take (length popped) pushed" by (simp add: queue_inv_def)
    then have eq: "length popped = length pushed \<longrightarrow> popped = pushed" by auto
    have oldest: "\<forall>x. fst (try_pop Capacity q') = Some x \<longrightarrow>
                  length popped < length pushed \<and> x = pushed ! length popped"
    proof (intro allI impI)
      fix x assume "fst (try_pop Capacity q') = Some x"
      then have "try_pop Capacity q' = (Some x, snd (try_pop Capacity q'))"
        by (metis prod.collapse)
      from queue_inv_pop_ok [OF inv this]
      show "length popped < length pushed \<and> x = pushed ! length popped" by simp
    qed
    from pre eq oldest
    show "popped = take (length popped) pushed
            \<and> (length popped = length pushed \<longrightarrow> popped = pushed)
            \<and> (\<forall>x. fst (try_pop Capacity q') = Some x \<longrightarrow>
                  length popped < length pushed \<and> x = pushed ! length popped)"
      by blast
  qed
  from push1 push2 push3 pop1 pop2 pop3 fifo show ?thesis by blast
qed


lemma example_run_eq:
  "example_run = (\<lparr>buffer = [4, 2], read_pos = 3, write_pos = 3\<rparr>, [1, 2, 4], [1, 2, 4])"
  by (simp add: example_run_def example_ops_def try_push_def try_pop_def LockFreeQueue_new_def
      word_le_nat_alt)

text \<open>
  Witness for C8 on a queue of capacity 2: a push into the new queue, a push into a full
  queue, a pop from the new queue, a pop from a full queue, and the run \<open>example_ops\<close>, in
  which 1, 2 and 4 are pushed with success and popped in that order.
\<close>

theorem spsc_queue_fifo_witness:
  "length [0, 0 :: nat] = unat (2 :: 64 word)
   \<and> fst (try_push 2 (LockFreeQueue_new [0, 0 :: nat]) 7) = True
   \<and> length (buffer (LockFreeQueue_new [0, 0 :: nat])) = unat (2 :: 64 word)
   \<and> buffer (snd (try_push 2 (LockFreeQueue_new [0, 0 :: nat]) 7)) ! 0 = 7
   \<and> fst (try_push 2 \<lparr>buffer = [1, 2 :: nat], read_pos = 0, write_pos = 2\<rparr> 3) = False
   \<and> snd (try_push 2 \<lparr>buffer = [1, 2 :: nat], read_pos = 0, write_pos = 2\<rparr> 3)
        = \<lparr>buffer = [1, 2], read_pos = 0, write_pos = 2\<rparr>
   \<and> fst (try_pop 2 (LockFreeQueue_new [0, 0 :: nat])) = None
   \<and> snd (try_pop 2 (LockFreeQueue_new [0, 0 :: nat])) = LockFreeQueue_new [0, 0]
   \<and> fst (try_pop 2 \<lparr>buffer = [1, 2 :: nat], read_pos = 0, write_pos = 2\<rparr>) = Some 1
   \<and> run_ops 2 example_ops (LockFreeQueue_new [0, 0], [], []) = example_run
   \<and> length (snd (snd example_run)) = length (fst (snd example_run))
   \<and> snd (snd example_run) = fst (snd example_run)
   \<and> fst (snd example_run) = [1, 2, 4]"
proof -
  have h: "length [0, 0 :: nat] = unat (2 :: 64 word)" by simp
  have r: "run_ops 2 example_ops (LockFreeQueue_new [0, 0], [], [])
      = (fst example_run, fst (snd example_run), snd (snd example_run))"
    by (simp add: example_run_def)
  have l: "length (snd (snd example_run)) = length (fst (snd example_run))"
    by (simp add: example_run_eq)
  have a: "buffer (snd (try_push 2 (LockFreeQueue_new [0, 0 :: nat]) 7)) ! 0 = 7"
    using spsc_queue_fifo [OF h, of "LockFreeQueue_new [0, 0 :: nat]" "7 :: nat"]
    by (simp add: try_push_def LockFreeQueue_new_def word_le_nat_alt)
  have b: "snd (try_push 2 \<lparr>buffer = [1, 2 :: nat], read_pos = 0, write_pos = 2\<rparr> 3)
        = \<lparr>buffer = [1, 2], read_pos = 0, write_pos = 2\<rparr>"
    using spsc_queue_fifo [OF h, of "\<lparr>buffer = [1, 2 :: nat], read_pos = 0, write_pos = 2\<rparr>" "3 :: nat"]
    by simp
  have c: "snd (try_pop 2 (LockFreeQueue_new [0, 0 :: nat])) = LockFreeQueue_new [0, 0]"
    using spsc_queue_fifo [OF h, of "LockFreeQueue_new [0, 0 :: nat]" "7 :: nat"]
    by (simp add: LockFreeQueue_new_def)
  have d: "fst (try_pop 2 \<lparr>buffer = [1, 2 :: nat], read_pos = 0, write_pos = 2\<rparr>) = Some 1"
    using spsc_queue_fifo [OF h, of "\<lparr>buffer = [1, 2 :: nat], read_pos = 0, write_pos = 2\<rparr>" "3 :: nat"]
    by simp
  have e: "snd (snd example_run) = fst (snd example_run)"
    using spsc_queue_fifo [OF h, of "LockFreeQueue_new [0, 0 :: nat]" "7 :: nat"] r l by blast
  have f: "run_ops 2 example_ops (LockFreeQueue_new [0, 0], [], []) = example_run"
    by (simp add: example_run_def)
  have g: "fst (snd example_run) = [1, 2, 4]" by (simp add: example_run_eq)
  have i: "fst (try_push 2 (LockFreeQueue_new [0, 0 :: nat]) 7) = True
      \<and> fst (try_push 2 \<lparr>buffer = [1, 2 :: nat], read_pos = 0, write_pos = 2\<rparr> 3) = False
      \<and> fst (try_pop 2 (LockFreeQueue_new [0, 0 :: nat])) = None"
    by (simp add: try_push_def try_pop_def LockFreeQueue_new_def word_le_nat_alt)
  have j: "length (buffer (LockFreeQueue_new [0, 0 :: nat])) = unat (2 :: 64 word)"
    by (simp add: LockFreeQueue_new_def)
  from h a b c d e l f g i j show ?thesis by simp
qed

end
